theory Spec2Isabelle
  imports Complex_Main "HOL-Library.Multiset" "HOL-Library.Sublist"
begin

section \<open>Data model\<close>

text \<open>
  The persisted records are the Sequelize models \<^verbatim>\<open>Room\<close> and \<^verbatim>\<open>RoomParticipant\<close>.
  Columns the engine never reads (names, dates, voice settings) are left out. Identifiers
  are unsigned integers, so they are natural numbers; scores, coins and seconds are
  integers. A nullable column is an \<open>option\<close>. \<^verbatim>\<open>roundPhase\<close> and \<^verbatim>\<open>status\<close> are string
  columns that the engine only ever writes with the literals listed below, so they are
  datatypes; \<^verbatim>\<open>gameMode\<close> and \<^verbatim>\<open>team\<close> stay strings, since the code compares them with
  different literals in different places.
\<close>

datatype phase = selecting_drawer | choosing_word | drawing | reveal | interval

datatype roomStatus = lobby | waiting | playing | finished | inactive | closed

text \<open>
  \<^verbatim>\<open>currentWordOptions\<close> is a JSON column: the code stores \<^verbatim>\<open>null\<close>, an array of words or,
  as shown below, a single string in it.
\<close>

datatype jsval = JNull | JStr string | JArr "string list"

record participant =
  pid :: nat
  userId :: nat
  team :: "string option"
  isDrawer :: bool
  score :: int
  hasDrawn :: bool
  hasGuessedThisRound :: bool
  hasPaidEntry :: bool
  isActive :: bool
  socketId :: "string option"

record room =
  ownerId :: nat
  gameMode :: string
  entryPoints :: int
  targetPoints :: int
  maxPointsPerRound :: int
  maxPlayers :: int
  voiceEnabled :: bool
  isPublic :: bool
  status :: roomStatus
  currentWord :: "string option"
  currentWordOptions :: jsval
  currentDrawerId :: "nat option"
  currentRound :: int
  roundPhase :: "phase option"
  roundRemainingTime :: int
  drawerPointerIndex :: nat
  themeId :: "nat option"
  drawnUserIds :: "nat list"

text \<open>What the server sends: \<^verbatim>\<open>socket.emit\<close>, \<^verbatim>\<open>io.to(room).emit\<close> and \<^verbatim>\<open>console.error\<close>.\<close>

record ranking =
  place :: nat
  rankUserId :: nat
  rankScore :: int
  coinsAwarded :: int

datatype event =
    GuessResult string
  | ErrorMsg string
  | CorrectGuess nat int int
  | IncorrectGuess nat string
  | PhaseChange phase int
  | TimeUpdate int
  | DrawerSelected nat
  | DrawerSkipped nat
  | WordOptions nat jsval
  | GameStarted int
  | GameEnded "ranking list" int
  | RoomJoined bool
  | RoomClosed
  | ClearChat
  | ConsoleError string

text \<open>
  One room and its rows: \<open>room\<close> is \<open>None\<close> once the row is destroyed
  (\<^verbatim>\<open>Room.findByPk\<close> returns \<^verbatim>\<open>null\<close>), \<open>participants\<close> are the rows of
  \<^verbatim>\<open>room_participants\<close> with this room's id in table order, \<open>nextId\<close> is the
  auto-increment counter of that table, \<open>coins\<close> is the \<^verbatim>\<open>coins\<close> column of the users
  table, \<open>ledger\<close> the rows of \<^verbatim>\<open>CoinTransaction\<close> (user, amount, reason), and
  \<open>emitted\<close> everything sent so far.
\<close>

record store =
  room :: "room option"
  participants :: "participant list"
  nextId :: nat
  coins :: "nat \<rightharpoonup> int"
  ledger :: "(nat \<times> int \<times> string) list"
  emitted :: "event list"

definition emit :: "event \<Rightarrow> store \<Rightarrow> store" where
  "emit e s = s\<lparr>emitted := emitted s @ [e]\<rparr>"

definition saveRoom :: "room \<Rightarrow> store \<Rightarrow> store" where
  "saveRoom r s = s\<lparr>room := Some r\<rparr>"

definition updateWhere :: "(participant \<Rightarrow> bool) \<Rightarrow> (participant \<Rightarrow> participant) \<Rightarrow> store \<Rightarrow> store" where
  "updateWhere P f s = s\<lparr>participants := map (\<lambda>p. if P p then f p else p) (participants s)\<rparr>"

definition countWhere :: "(participant \<Rightarrow> bool) \<Rightarrow> store \<Rightarrow> nat" where
  "countWhere P s = length (filter P (participants s))"

definition findOne :: "(participant \<Rightarrow> bool) \<Rightarrow> store \<Rightarrow> participant option" where
  "findOne P s = List.find P (participants s)"

section \<open>gameHelpers.js\<close>

fun PHASE_DURATIONS :: "phase \<Rightarrow> int" where
  "PHASE_DURATIONS selecting_drawer = 5"
| "PHASE_DURATIONS choosing_word = 10"
| "PHASE_DURATIONS drawing = 80"
| "PHASE_DURATIONS reveal = 7"
| "PHASE_DURATIONS interval = 4"

definition calculateEntryCost :: "int \<Rightarrow> bool \<Rightarrow> int" where
  "calculateEntryCost entryPts voice = entryPts"

text \<open>
  \<^verbatim>\<open>Math.min(Math.ceil(remainingTime / 8), maxPoints)\<close> and
  \<^verbatim>\<open>Math.floor(remainingTime / numPlayers)\<close>. The operands are integer columns, far below
  \<open>2^53\<close>, where the double quotient rounds to the same integer as the exact one, so the
  quotient is taken in the reals. The caller never passes \<open>numPlayers = 0\<close>.
\<close>

definition calculateGuessReward :: "int \<Rightarrow> int \<Rightarrow> int" where
  "calculateGuessReward remainingTime maxPoints = min \<lceil>real_of_int remainingTime / 8\<rceil> maxPoints"

definition calculateTimeReduction :: "int \<Rightarrow> int \<Rightarrow> int" where
  "calculateTimeReduction remainingTime numPlayers =
     \<lfloor>real_of_int remainingTime / real_of_int numPlayers\<rfloor>"

text \<open>
  \<^verbatim>\<open>endGame\<close>: the room is marked finished, the participants handed in are sorted by
  descending score (JavaScript's sort is stable, as is \<open>sort_key\<close>), and the loop over
  the first three credits \<^verbatim>\<open>entryCost * multiplier\<close> to the user, writes a
  \<^verbatim>\<open>CoinTransaction\<close> and pushes a ranking, all three only when \<^verbatim>\<open>User.findByPk\<close>
  finds the user. The second loop ranks everybody else with no coins.
\<close>

fun showNat :: "nat \<Rightarrow> string" where
  "showNat n =
     (if n < 10 then [''0123456789'' ! n] else showNat (n div 10) @ [''0123456789'' ! (n mod 10)])"

declare showNat.simps [simp del]

definition rewards :: "(nat \<times> int) list" where
  "rewards = [(1, 3), (2, 2), (3, 1)]"

definition rewardReason :: "nat \<Rightarrow> string" where
  "rewardReason pl = ''game_reward_place_'' @ showNat pl"

definition awardPlace ::
  "int \<Rightarrow> participant list \<Rightarrow> nat \<Rightarrow>
   (nat \<rightharpoonup> int) \<times> (nat \<times> int \<times> string) list \<times> ranking list \<Rightarrow>
   (nat \<rightharpoonup> int) \<times> (nat \<times> int \<times> string) list \<times> ranking list" where
  "awardPlace entryCost ps i acc =
     (case acc of (cs, led, rk) \<Rightarrow>
        let p = ps ! i;
            reward = rewards ! i;
            awarded = entryCost * snd reward
        in (case cs (userId p) of
              None \<Rightarrow> (cs, led, rk)
            | Some c \<Rightarrow>
                (cs(userId p \<mapsto> c + awarded),
                 led @ [(userId p, awarded, rewardReason (fst reward))],
                 rk @ [\<lparr>place = fst reward, rankUserId = userId p, rankScore = score p,
                        coinsAwarded = awarded\<rparr>])))"

definition unrewarded :: "participant list \<Rightarrow> nat \<Rightarrow> ranking" where
  "unrewarded ps i =
     \<lparr>place = i + 1, rankUserId = userId (ps ! i), rankScore = score (ps ! i), coinsAwarded = 0\<rparr>"

definition endGame :: "room \<Rightarrow> participant list \<Rightarrow> store \<Rightarrow> store" where
  "endGame r ps0 s =
     (let s1 = saveRoom (r\<lparr>status := finished\<rparr>) s;
          ps = sort_key (\<lambda>p. - score p) ps0;
          entryCost = calculateEntryCost (entryPoints r) (voiceEnabled r);
          acc = fold (awardPlace entryCost ps) [0..<min (length ps) 3] (coins s1, ledger s1, []);
          rankings = snd (snd acc) @ map (unrewarded ps) [3..<length ps]
      in emit (GameEnded rankings entryCost) (s1\<lparr>coins := fst acc, ledger := fst (snd acc)\<rparr>))"

text \<open>Two seconds after \<^verbatim>\<open>endGame\<close> its timer writes the status back to lobby.\<close>

definition endGameTimer :: "store \<Rightarrow> store" where
  "endGameTimer s = (case room s of None \<Rightarrow> s | Some r \<Rightarrow> saveRoom (r\<lparr>status := lobby\<rparr>) s)"

text \<open>
  \<^verbatim>\<open>checkGameEnd\<close> reads the active participants ordered by descending score and ends the
  game when one of them has reached the target. The result says whether the game ended.
\<close>

definition checkGameEnd :: "room \<Rightarrow> store \<Rightarrow> bool \<times> store" where
  "checkGameEnd r s =
     (let ps = sort_key (\<lambda>p. - score p) (filter isActive (participants s))
      in (case List.find (\<lambda>p. score p \<ge> targetPoints r) ps of
            Some winner \<Rightarrow> (True, endGame r ps s)
          | None \<Rightarrow> (False, s)))"

section \<open>Ending the drawing phase\<close>

text \<open>
  \<^verbatim>\<open>endDrawingPhase\<close>: the drawer (the row whose user is the room's
  \<^verbatim>\<open>currentDrawerId\<close>) earns \<^verbatim>\<open>min(guessedCount * 2, maxPointsPerRound)\<close> when somebody
  guessed, where this count takes every row of the room with the flag, active or not.
  The phase becomes reveal and \<^verbatim>\<open>checkGameEnd\<close> runs. When the game goes on, a timer of
  seven seconds is set whose callback is \<^verbatim>\<open>startIntervalPhase\<close> (below).
\<close>

definition addScore :: "int \<Rightarrow> participant \<Rightarrow> participant" where
  "addScore n p = p\<lparr>score := score p + n\<rparr>"

definition endDrawingPhase :: "store \<Rightarrow> store" where
  "endDrawingPhase s =
     (case room s of
        None \<Rightarrow> s
      | Some r \<Rightarrow>
          let guessedCount = countWhere hasGuessedThisRound s;
              drawer = findOne (\<lambda>p. Some (userId p) = currentDrawerId r) s;
              s1 = (case drawer of
                      None \<Rightarrow> s
                    | Some d \<Rightarrow>
                        if guessedCount > 0
                        then updateWhere (\<lambda>p. pid p = pid d)
                               (addScore (min (int guessedCount * 2) (maxPointsPerRound r))) s
                        else s);
              r1 = r\<lparr>roundPhase := Some reveal\<rparr>;
              s2 = emit (PhaseChange reveal (PHASE_DURATIONS reveal)) (saveRoom r1 s1)
          in snd (checkGameEnd r1 s2))"

section \<open>The submit_guess handler of socket.js\<close>

text \<open>
  \<^verbatim>\<open>trim\<close> and \<^verbatim>\<open>toLowerCase\<close>. A character of a string stands for the code point of
  its number, U+0000 to U+00FF. Among these \<^verbatim>\<open>trim\<close> strips the space, the control
  characters 9 to 13 and the no-break space 160; \<^verbatim>\<open>toLowerCase\<close> moves the capitals
  A to Z and the capitals 192 to 222, without the multiplication sign 215, up by 32, and
  keeps every other character.
\<close>

definition isSpace :: "char \<Rightarrow> bool" where
  "isSpace c = (c = CHR '' '' \<or> (9 \<le> (of_char c :: nat) \<and> (of_char c :: nat) \<le> 13)
                \<or> (of_char c :: nat) = 160)"

definition trim :: "string \<Rightarrow> string" where
  "trim w = rev (dropWhile isSpace (rev (dropWhile isSpace w)))"

definition lowerChar :: "char \<Rightarrow> char" where
  "lowerChar c =
     (if 65 \<le> (of_char c :: nat) \<and> (of_char c :: nat) \<le> 90
      then ''abcdefghijklmnopqrstuvwxyz'' ! (of_char c - 65)
      else if 192 \<le> (of_char c :: nat) \<and> (of_char c :: nat) \<le> 222
              \<and> (of_char c :: nat) \<noteq> 215
      then char_of ((of_char c :: nat) + 32)
      else c)"

definition toLowerCase :: "string \<Rightarrow> string" where
  "toLowerCase w = map lowerChar w"

definition normalized :: "string \<Rightarrow> string" where
  "normalized w = toLowerCase (trim w)"

text \<open>
  Steps 1 to 6 of the handler are its early returns: each sends \<^verbatim>\<open>guess_result\<close> with a
  message and leaves. \<open>checkGuess\<close> gives the message, or the room and the participant
  row the rest of the handler works on. The socket's user is \<open>None\<close> for an anonymous
  socket; \<^verbatim>\<open>!socket.user.id\<close> also refuses the id 0. An empty \<^verbatim>\<open>currentWord\<close> is falsy.
\<close>

definition wrongTeam :: "store \<Rightarrow> room \<Rightarrow> participant \<Rightarrow> bool" where
  "wrongTeam s r p =
     (case findOne (\<lambda>q. Some (userId q) = currentDrawerId r) s of
        None \<Rightarrow> True
      | Some drawer \<Rightarrow> team p \<noteq> team drawer)"

definition checkGuess :: "store \<Rightarrow> nat option \<Rightarrow> string + (room \<times> participant)" where
  "checkGuess s sockUser =
     (case room s of
        None \<Rightarrow> Inl ''room_not_found''
      | Some r \<Rightarrow>
          if roundPhase r \<noteq> Some drawing then Inl ''not_drawing_phase''
          else if currentWord r = None \<or> currentWord r = Some [] then Inl ''no_active_word''
          else (case sockUser of
                  None \<Rightarrow> Inl ''not_authenticated''
                | Some uid \<Rightarrow>
                    if uid = 0 then Inl ''not_authenticated''
                    else (case findOne (\<lambda>p. userId p = uid) s of
                            None \<Rightarrow> Inl ''not_in_room''
                          | Some p \<Rightarrow>
                              if isDrawer p then Inl ''drawer_cannot_guess''
                              else if hasGuessedThisRound p then Inl ''already_guessed''
                              else if gameMode r = ''team_vs_team'' \<and> wrongTeam s r p
                              then Inl ''wrong_team''
                              else Inr (r, p))))"

text \<open>
  A correct guess. The reward goes to every active row of the guesser's team in team
  mode and to the guesser's row otherwise; then the guesser's row is marked.
\<close>

definition awardGuess :: "room \<Rightarrow> participant \<Rightarrow> store \<Rightarrow> store" where
  "awardGuess r p s =
     (let reward = calculateGuessReward (roundRemainingTime r) (maxPointsPerRound r);
          s1 = (if gameMode r = ''team_vs_team''
                then updateWhere (\<lambda>q. team q = team p \<and> isActive q) (addScore reward) s
                else updateWhere (\<lambda>q. pid q = pid p) (addScore reward) s)
      in updateWhere (\<lambda>q. pid q = pid p) (\<lambda>q. q\<lparr>hasGuessedThisRound := True\<rparr>) s1)"

text \<open>
  The time reduction divides by \<^verbatim>\<open>activePlayers\<close>, the count of the room's active rows
  that are not the drawer (whatever their team), and is skipped when that count is 0.
\<close>

definition reduceTime :: "room \<Rightarrow> store \<Rightarrow> room \<times> store" where
  "reduceTime r s =
     (let activePlayers = countWhere (\<lambda>q. isActive q \<and> \<not> isDrawer q) s
      in if activePlayers > 0
         then (let r1 = r\<lparr>roundRemainingTime :=
                           max 0 (roundRemainingTime r
                                  - calculateTimeReduction (roundRemainingTime r) (int activePlayers))\<rparr>
               in (r1, saveRoom r1 s))
         else (r, s))"

definition eligibleCount :: "room \<Rightarrow> participant \<Rightarrow> store \<Rightarrow> nat" where
  "eligibleCount r p s =
     (if gameMode r = ''team_vs_team''
      then countWhere (\<lambda>q. isActive q \<and> \<not> isDrawer q \<and> team q = team p) s
      else countWhere (\<lambda>q. isActive q \<and> \<not> isDrawer q) s)"

definition guessedCount :: "store \<Rightarrow> nat" where
  "guessedCount s = countWhere (\<lambda>q. isActive q \<and> hasGuessedThisRound q) s"

definition correctGuess :: "room \<Rightarrow> participant \<Rightarrow> nat \<Rightarrow> store \<Rightarrow> store" where
  "correctGuess r p uid s =
     (let reward = calculateGuessReward (roundRemainingTime r) (maxPointsPerRound r);
          s1 = awardGuess r p s
      in (case reduceTime r s1 of
            (r1, s2) \<Rightarrow>
              let s3 = emit (CorrectGuess uid reward (roundRemainingTime r1)) s2
              in if guessedCount s3 \<ge> eligibleCount r1 p s3 then endDrawingPhase s3 else s3))"

definition incorrectGuess :: "nat \<Rightarrow> string \<Rightarrow> store \<Rightarrow> store" where
  "incorrectGuess uid guess s = emit (GuessResult ''incorrect'') (emit (IncorrectGuess uid guess) s)"

definition wordOf :: "room \<Rightarrow> string" where
  "wordOf r = (case currentWord r of None \<Rightarrow> [] | Some w \<Rightarrow> w)"

definition submit_guess :: "nat option \<Rightarrow> string \<Rightarrow> store \<Rightarrow> store" where
  "submit_guess sockUser guess s =
     (case checkGuess s sockUser of
        Inl message \<Rightarrow> emit (GuessResult message) s
      | Inr (r, p) \<Rightarrow>
          if normalized guess = normalized (wordOf r)
          then correctGuess r p (userId p) s
          else incorrectGuess (userId p) guess s)"

section \<open>Drawer rotation\<close>

text \<open>
  \<^verbatim>\<open>xs[i]\<close> is \<^verbatim>\<open>undefined\<close> when \<open>i\<close> is out of range.
\<close>

definition nthOpt :: "'a list \<Rightarrow> nat \<Rightarrow> 'a option" where
  "nthOpt xs i = (if i < length xs then Some (xs ! i) else None)"

text \<open>
  Flat rotation over the sorted active participants (never empty here):
  \<^verbatim>\<open>pointer = pointer % n; nextDrawer = participants[pointer]; pointer = (pointer + 1) % n\<close>.
\<close>

definition flatRotation :: "nat \<Rightarrow> participant list \<Rightarrow> participant option \<times> nat" where
  "flatRotation pointer ps =
     (let pointer1 = pointer mod length ps
      in (nthOpt ps pointer1, (pointer1 + 1) mod length ps))"

text \<open>The loop that builds \<^verbatim>\<open>alternatingList\<close>: blue, orange, blue, orange, ...\<close>

definition alternatingList :: "participant list \<Rightarrow> participant list \<Rightarrow> participant list" where
  "alternatingList blueTeam orangeTeam =
     concat (map (\<lambda>i. (if i < length blueTeam then [blueTeam ! i] else [])
                      @ (if i < length orangeTeam then [orangeTeam ! i] else []))
                 [0..<max (length blueTeam) (length orangeTeam)])"

text \<open>
  The local variable \<^verbatim>\<open>drawnUserIds\<close>. The column is created with its default \<^verbatim>\<open>[]\<close> and
  only ever assigned arrays, so the getter of the model hands out the array that the
  loaded row holds, the object itself and not a copy: \<open>RowArray\<close>, with its content. The
  reset \<^verbatim>\<open>drawnUserIds = []\<close> puts a new array in the variable: \<open>NewArray\<close>.
  \<^verbatim>\<open>includes\<close> and \<^verbatim>\<open>push\<close> work on the content of either.
\<close>

datatype drawnArray = RowArray "nat list" | NewArray "nat list"

fun content :: "drawnArray \<Rightarrow> nat list" where
  "content (RowArray xs) = xs"
| "content (NewArray xs) = xs"

fun push :: "nat \<Rightarrow> drawnArray \<Rightarrow> drawnArray" where
  "push u (RowArray xs) = RowArray (xs @ [u])"
| "push u (NewArray xs) = NewArray (xs @ [u])"

text \<open>
  \<^verbatim>\<open>room.drawnUserIds = drawnUserIds\<close> followed by \<^verbatim>\<open>room.save()\<close>. The setter calls
  \<^verbatim>\<open>setDataValue\<close>, which marks the column as changed when the value assigned is not
  deeply equal to the value the row had, and \<^verbatim>\<open>save\<close> writes the marked columns only
  (Sequelize 6). Assigning the row's own array, with whatever has been pushed into it,
  compares an object with itself: the column is not marked, and the stored list stays
  what it was. A new array is written when its content differs from the stored one.
\<close>

fun setDrawnUserIds :: "drawnArray \<Rightarrow> room \<Rightarrow> room" where
  "setDrawnUserIds (RowArray xs) r = r"
| "setDrawnUserIds (NewArray xs) r = (if xs = drawnUserIds r then r else r\<lparr>drawnUserIds := xs\<rparr>)"

text \<open>
  The walk over the alternating list: the first offset \<open>i\<close> whose candidate is not in
  \<^verbatim>\<open>drawnUserIds\<close> wins (the loop breaks there). When there is none, the list is reset and
  \<^verbatim>\<open>alternatingList[pointer]\<close> is taken, with the pointer as it was read from the room.
\<close>

definition teamRotation ::
  "nat \<Rightarrow> nat list \<Rightarrow> participant list \<Rightarrow> participant option \<times> nat \<times> drawnArray" where
  "teamRotation pointer drawn alt =
     (let totalPlayers = length alt
      in (case List.find (\<lambda>i. userId (alt ! ((pointer + i) mod totalPlayers)) \<notin> set drawn)
                   [0..<totalPlayers] of
            Some i \<Rightarrow>
              let idx = (pointer + i) mod totalPlayers
              in (Some (alt ! idx), (idx + 1) mod totalPlayers, RowArray drawn)
          | None \<Rightarrow> (nthOpt alt pointer, (pointer + 1) mod totalPlayers, NewArray [])))"

definition chooseDrawer ::
  "room \<Rightarrow> participant list \<Rightarrow> participant option \<times> nat \<times> drawnArray" where
  "chooseDrawer r ps =
     (let pointer = drawerPointerIndex r; drawn = drawnUserIds r
      in if gameMode r = ''1v1''
         then (fst (flatRotation pointer ps), snd (flatRotation pointer ps), RowArray drawn)
         else
           let blueTeam = sort_key userId (filter (\<lambda>p. team p = Some ''blue'') ps);
               orangeTeam = sort_key userId (filter (\<lambda>p. team p = Some ''orange'') ps)
           in if blueTeam = [] \<or> orangeTeam = []
              then (fst (flatRotation pointer ps), snd (flatRotation pointer ps), RowArray drawn)
              else teamRotation pointer drawn (alternatingList blueTeam orangeTeam))"

section \<open>Word options\<close>

text \<open>
  \<^verbatim>\<open>getWordsForTheme\<close> reads the theme's translations and shuffles them with
  \<^verbatim>\<open>Math.random\<close>; its argument here is that shuffled list (empty when the theme has no
  word or the lookup fails), of which it returns the first \<^verbatim>\<open>limit\<close>.
  \<^verbatim>\<open>getRandomWordForTheme\<close> returns the first of three such words, a string, or \<^verbatim>\<open>null\<close>.
\<close>

definition getWordsForTheme :: "string list \<Rightarrow> nat \<Rightarrow> string list" where
  "getWordsForTheme shuffled limit = (if limit \<noteq> 0 then take limit shuffled else shuffled)"

definition getRandomWordForTheme :: "string list \<Rightarrow> jsval" where
  "getRandomWordForTheme shuffled =
     (let words = getWordsForTheme shuffled 3
      in if length words > 0 then JStr (words ! 0) else JNull)"

definition fallback :: "string list" where
  "fallback = [''apple'', ''banana'', ''cat'', ''dog'', ''elephant'', ''flower'', ''guitar'',
               ''house'', ''tree'', ''sun'']"

fun falsy :: "jsval \<Rightarrow> bool" where
  "falsy JNull = True"
| "falsy (JStr w) = (w = [])"
| "falsy (JArr ws) = False"

fun jsLength :: "jsval \<Rightarrow> nat" where
  "jsLength JNull = 0"
| "jsLength (JStr w) = length w"
| "jsLength (JArr ws) = length ws"

text \<open>
  The word selection of \<^verbatim>\<open>selectDrawerAndStartWordChoice\<close>: \<^verbatim>\<open>words\<close> starts as the empty
  array, becomes the result of \<^verbatim>\<open>getRandomWordForTheme\<close> when the room has a theme, and
  is replaced by three words of the shuffled fallback list when
  \<^verbatim>\<open>!words || words.length < 3\<close>. \<open>shuffledFallback\<close> is the fallback list after its
  random sort.
\<close>

definition wordOptions :: "room \<Rightarrow> string list \<Rightarrow> string list \<Rightarrow> jsval" where
  "wordOptions r themed shuffledFallback =
     (let words = (if themeId r \<noteq> None \<and> themeId r \<noteq> Some 0
                   then getRandomWordForTheme themed else JArr [])
      in if falsy words \<or> jsLength words < 3 then JArr (take 3 shuffledFallback) else words)"

section \<open>Round phases\<close>

text \<open>
  Timers. The registry \<^verbatim>\<open>roomTimers\<close> of handles is not part of the store: a timer
  callback is a function of the store, and the transition function at the end lets any
  callback run at any moment with any captured values, which covers every firing the
  registry allows. \<^verbatim>\<open>clearRoomTimer\<close> therefore has no counterpart.

  \<^verbatim>\<open>startPhaseTimerAndBroadcast\<close> writes the phase and its duration to the room,
  broadcasts the phase change and starts the ticker \<open>phaseTick\<close> of that phase.
\<close>

definition startPhaseTimerAndBroadcast :: "room \<Rightarrow> phase \<Rightarrow> store \<Rightarrow> store" where
  "startPhaseTimerAndBroadcast r phaseKey s =
     (let duration = PHASE_DURATIONS phaseKey;
          r1 = r\<lparr>roundPhase := Some phaseKey, roundRemainingTime := duration\<rparr>
      in emit (PhaseChange phaseKey duration) (saveRoom r1 s))"

text \<open>
  \<^verbatim>\<open>selectDrawerAndStartWordChoice\<close>. The room is reloaded; without active participants
  nothing happens; \<open>activeSorted\<close> is the list \<^verbatim>\<open>participants\<close> after its sort by
  \<^verbatim>\<open>userId\<close>. After the choice the old drawer flags are cleared, and
  \<^verbatim>\<open>nextDrawer.id\<close> throws when \<^verbatim>\<open>nextDrawer\<close> is \<^verbatim>\<open>undefined\<close>: the \<^verbatim>\<open>catch\<close> logs it and
  the function ends there. The new drawer is pushed into \<^verbatim>\<open>drawnUserIds\<close> unless the array
  has it, and the array is assigned to the room before the room is saved.
\<close>

definition activeSorted :: "store \<Rightarrow> participant list" where
  "activeSorted s = sort_key userId (filter isActive (participants s))"

definition selectDrawerAndStartWordChoice :: "string list \<Rightarrow> string list \<Rightarrow> store \<Rightarrow> store" where
  "selectDrawerAndStartWordChoice themed shuffledFallback s =
     (case room s of
        None \<Rightarrow> s
      | Some r \<Rightarrow>
          let ps = activeSorted s
          in if ps = [] then s
             else (case chooseDrawer r ps of
                     (nextDrawer, pointer, drawn) \<Rightarrow>
                       let s1 = updateWhere isDrawer (\<lambda>p. p\<lparr>isDrawer := False\<rparr>) s
                       in (case nextDrawer of
                             None \<Rightarrow> emit (ConsoleError ''Select drawer error'') s1
                           | Some d \<Rightarrow>
                               let s2 = updateWhere (\<lambda>p. pid p = pid d)
                                          (\<lambda>p. p\<lparr>isDrawer := True, hasDrawn := True\<rparr>) s1;
                                   drawn1 = (if userId d \<in> set (content drawn) then drawn
                                             else push (userId d) drawn);
                                   r1 = (setDrawnUserIds drawn1 r)
                                          \<lparr>drawerPointerIndex := pointer,
                                           currentDrawerId := Some (userId d),
                                           currentWord := None,
                                           currentWordOptions := JNull\<rparr>;
                                   r2 = r1\<lparr>currentWordOptions :=
                                              wordOptions r1 themed shuffledFallback\<rparr>;
                                   s3 = startPhaseTimerAndBroadcast r2 selecting_drawer
                                          (saveRoom r2 s2)
                               in emit (DrawerSelected (userId d)) s3)))"

definition startNewRound :: "string list \<Rightarrow> string list \<Rightarrow> store \<Rightarrow> store" where
  "startNewRound themed shuffledFallback s =
     (let s1 = emit ClearChat s
      in if countWhere isActive s1 < 2 then emit (ErrorMsg ''not_enough_players'') s1
         else selectDrawerAndStartWordChoice themed shuffledFallback
                (updateWhere (\<lambda>p. True)
                   (\<lambda>p. p\<lparr>hasGuessedThisRound := False, isDrawer := False\<rparr>) s1))"

text \<open>
  The three callbacks handed to \<^verbatim>\<open>startPhaseTimerAndBroadcast\<close>, with what they capture:
  after the preview the word options go to the drawer's socket, when it is connected, and
  the choosing phase starts; when the drawer lets the choosing phase run out, the flag of
  that user is cleared and the rotation goes on; after the interval a new round starts,
  with the round counter incremented (\<^verbatim>\<open>startIntervalPhase\<close>) or not
  (\<^verbatim>\<open>handleDrawerLeave\<close>).
\<close>

datatype onEnd = ToWordChoice nat jsval bool | DrawerTimedOut nat | NextRound bool

definition startWordChoicePhase :: "room \<Rightarrow> nat \<Rightarrow> jsval \<Rightarrow> bool \<Rightarrow> store \<Rightarrow> store" where
  "startWordChoicePhase r drawerUser words online s =
     startPhaseTimerAndBroadcast r choosing_word
       (if online then emit (WordOptions drawerUser words) s else s)"

definition drawerTimedOut :: "room \<Rightarrow> nat \<Rightarrow> string list \<Rightarrow> string list \<Rightarrow> store \<Rightarrow> store" where
  "drawerTimedOut r drawerUser themed shuffledFallback s =
     (let s1 = updateWhere (\<lambda>p. userId p = drawerUser) (\<lambda>p. p\<lparr>isDrawer := False\<rparr>) s;
          r1 = r\<lparr>currentDrawerId := None, currentWord := None, currentWordOptions := JNull,
                 roundPhase := Some selecting_drawer\<rparr>
      in selectDrawerAndStartWordChoice themed shuffledFallback
           (emit (DrawerSkipped drawerUser) (saveRoom r1 s1)))"

fun onEndCallback :: "onEnd \<Rightarrow> room \<Rightarrow> string list \<Rightarrow> string list \<Rightarrow> store \<Rightarrow> store" where
  "onEndCallback (ToWordChoice drawerUser words online) r themed fb s =
     startWordChoicePhase r drawerUser words online s"
| "onEndCallback (DrawerTimedOut drawerUser) r themed fb s = drawerTimedOut r drawerUser themed fb s"
| "onEndCallback (NextRound incr) r themed fb s =
     startNewRound themed fb
       (if incr then saveRoom (r\<lparr>currentRound := currentRound r + 1\<rparr>) s else s)"

text \<open>
  The ticker of \<^verbatim>\<open>startPhaseTimerAndBroadcast\<close>, once a second: it reloads the room; when
  the room is gone, the phase is another one or the time is up it stops, calling its
  callback only in the phase it was started for; otherwise it counts one second down.
\<close>

definition phaseTick :: "phase \<Rightarrow> onEnd \<Rightarrow> string list \<Rightarrow> string list \<Rightarrow> store \<Rightarrow> store" where
  "phaseTick phaseKey cb themed fb s =
     (case room s of
        None \<Rightarrow> s
      | Some r \<Rightarrow>
          if roundPhase r \<noteq> Some phaseKey \<or> roundRemainingTime r \<le> 0
          then (if roundPhase r = Some phaseKey then onEndCallback cb r themed fb s else s)
          else emit (TimeUpdate (roundRemainingTime r - 1))
                 (saveRoom (r\<lparr>roundRemainingTime := roundRemainingTime r - 1\<rparr>) s))"

definition startDrawingPhase :: "room \<Rightarrow> store \<Rightarrow> store" where
  "startDrawingPhase r s =
     (let r1 = r\<lparr>roundPhase := Some drawing, roundRemainingTime := PHASE_DURATIONS drawing\<rparr>
      in emit (PhaseChange drawing (PHASE_DURATIONS drawing)) (saveRoom r1 s))"

text \<open>The ticker of the drawing phase.\<close>

definition drawingTick :: "store \<Rightarrow> store" where
  "drawingTick s =
     (case room s of
        None \<Rightarrow> s
      | Some r \<Rightarrow>
          if roundPhase r \<noteq> Some drawing \<or> roundRemainingTime r \<le> 0
          then (if roundPhase r = Some drawing then endDrawingPhase s else s)
          else emit (TimeUpdate (roundRemainingTime r - 1))
                 (saveRoom (r\<lparr>roundRemainingTime := roundRemainingTime r - 1\<rparr>) s))"

text \<open>
  \<^verbatim>\<open>startIntervalPhase\<close> is the callback of the timer that \<^verbatim>\<open>endDrawingPhase\<close> sets for
  the end of the reveal. It reloads the room and starts the interval phase; on a
  deleted room \<^verbatim>\<open>room.code\<close> throws and the \<^verbatim>\<open>catch\<close> logs it.
\<close>

definition startIntervalPhase :: "store \<Rightarrow> store" where
  "startIntervalPhase s =
     (case room s of
        None \<Rightarrow> emit (ConsoleError ''Start interval phase error'') s
      | Some r \<Rightarrow>
          emit (PhaseChange interval (PHASE_DURATIONS interval))
            (startPhaseTimerAndBroadcast r interval s))"

section \<open>Leaving and joining\<close>

text \<open>
  \<^verbatim>\<open>deleteRoom\<close> destroys the participant rows and the room and tells the sockets.
  \<^verbatim>\<open>checkAndMaybeDeleteRoom\<close> deletes a room with no active participant or whose owner
  is not among the active ones.
\<close>

definition deleteRoom :: "store \<Rightarrow> store" where
  "deleteRoom s = emit RoomClosed (s\<lparr>room := None, participants := []\<rparr>)"

definition checkAndMaybeDeleteRoom :: "store \<Rightarrow> store" where
  "checkAndMaybeDeleteRoom s =
     (case room s of
        None \<Rightarrow> s
      | Some r \<Rightarrow>
          let ps = filter isActive (participants s)
          in if length ps = 0 then deleteRoom s
             else if \<not> list_ex (\<lambda>p. userId p = ownerId r) ps then deleteRoom s
             else s)"

text \<open>
  \<^verbatim>\<open>handleDrawerLeave\<close> acts only when the leaving user is the room's current drawer in
  the drawing phase: the drawer, the word and the options of the room are cleared and the
  interval phase starts; the participant rows are not written.
\<close>

definition handleDrawerLeave :: "room \<Rightarrow> nat \<Rightarrow> store \<Rightarrow> bool \<times> store" where
  "handleDrawerLeave r user s =
     (if currentDrawerId r \<noteq> Some user \<or> roundPhase r \<noteq> Some drawing then (False, s)
      else
        let r1 = r\<lparr>currentDrawerId := None, currentWord := None, currentWordOptions := JNull\<rparr>
        in (True, checkAndMaybeDeleteRoom (startPhaseTimerAndBroadcast r1 interval (saveRoom r1 s))))"

definition handleOwnerLeave :: "room \<Rightarrow> nat \<Rightarrow> store \<Rightarrow> bool \<times> store" where
  "handleOwnerLeave r user s = (if ownerId r \<noteq> user then (False, s) else (True, deleteRoom s))"

definition checkAndCloseEmptyRoom :: "store \<Rightarrow> bool \<times> store" where
  "checkAndCloseEmptyRoom s =
     (let activeParticipants = countWhere isActive s
      in (case room s of
            None \<Rightarrow> (False, s)
          | Some r \<Rightarrow>
              if activeParticipants = 1
              then (True, emit RoomClosed (saveRoom (r\<lparr>status := inactive\<rparr>) s))
              else (False, s)))"

definition deactivate :: "nat \<Rightarrow> store \<Rightarrow> store" where
  "deactivate user s =
     updateWhere (\<lambda>p. userId p = user) (\<lambda>p. p\<lparr>isActive := False, socketId := None\<rparr>) s"

definition leave_room :: "nat option \<Rightarrow> store \<Rightarrow> store" where
  "leave_room sockUser s =
     (case room s of
        None \<Rightarrow> s
      | Some r \<Rightarrow>
          (case sockUser of
             None \<Rightarrow> s
           | Some user \<Rightarrow>
               let s1 = deactivate user s;
                   s2 = (if ownerId r = user then snd (handleOwnerLeave r user s1)
                         else if status r = playing then snd (handleDrawerLeave r user s1)
                         else s1)
               in snd (checkAndCloseEmptyRoom s2)))"

definition disconnect :: "nat option \<Rightarrow> store \<Rightarrow> store" where
  "disconnect sockUser s =
     (case sockUser of
        None \<Rightarrow> s
      | Some user \<Rightarrow>
          (case room s of
             None \<Rightarrow> s
           | Some r \<Rightarrow> snd (checkAndCloseEmptyRoom (deactivate user s))))"

text \<open>
  \<^verbatim>\<open>join_room\<close>. \<^verbatim>\<open>isRejoining\<close> holds for a user whose row exists and is inactive; every
  other join is refused when the active rows have reached \<^verbatim>\<open>maxPlayers\<close>. An inactive
  room comes back, a known user's row is reactivated with the new socket, an unknown
  user gets a row with the column defaults. (The request for the canvas that follows in
  a playing room only sends messages and is left out.)
\<close>

definition isRejoining :: "participant option \<Rightarrow> bool" where
  "isRejoining existing = (case existing of None \<Rightarrow> False | Some p \<Rightarrow> \<not> isActive p)"

definition newParticipant :: "nat \<Rightarrow> nat \<Rightarrow> string \<Rightarrow> participant" where
  "newParticipant i user sock =
     \<lparr>pid = i, userId = user, team = None, isDrawer = False, score = 0, hasDrawn = False,
      hasGuessedThisRound = False, hasPaidEntry = False, isActive = True, socketId = Some sock\<rparr>"

definition join_room :: "nat option \<Rightarrow> string \<Rightarrow> store \<Rightarrow> store" where
  "join_room sockUser sock s =
     (case room s of
        None \<Rightarrow> emit (ErrorMsg ''room_not_found'') s
      | Some r \<Rightarrow>
          let existing = (case sockUser of
                            None \<Rightarrow> None
                          | Some user \<Rightarrow> findOne (\<lambda>p. userId p = user) s)
          in if \<not> isRejoining existing \<and> int (countWhere isActive s) \<ge> maxPlayers r
             then emit (ErrorMsg ''room_full'') s
             else
               let s1 = (if status r = inactive
                         then saveRoom (r\<lparr>status := (if isPublic r then waiting else lobby)\<rparr>) s
                         else s);
                   s2 = (case sockUser of
                           None \<Rightarrow> s1
                         | Some user \<Rightarrow>
                             (case existing of
                                Some p \<Rightarrow>
                                  updateWhere (\<lambda>q. userId q = user)
                                    (\<lambda>q. q\<lparr>socketId := Some sock, isActive := True\<rparr>) s1
                              | None \<Rightarrow>
                                  s1\<lparr>participants :=
                                        participants s1 @ [newParticipant (nextId s1) user sock],
                                      nextId := nextId s1 + 1\<rparr>))
               in emit (RoomJoined (isRejoining existing)) s2)"

section \<open>Starting the game, choosing a word, skipping a turn\<close>

text \<open>
  The loop of \<^verbatim>\<open>start_game\<close> that takes the entry coins: a participant whose user row is
  missing or who has paid is passed over; the first one who cannot pay ends the handler,
  with what was taken before left as it is.
\<close>

fun deductEntry :: "int \<Rightarrow> participant list \<Rightarrow> store \<Rightarrow> bool \<times> store" where
  "deductEntry entryCost [] s = (True, s)"
| "deductEntry entryCost (p # ps) s =
     (case coins s (userId p) of
        None \<Rightarrow> deductEntry entryCost ps s
      | Some c \<Rightarrow>
          if hasPaidEntry p then deductEntry entryCost ps s
          else if c < entryCost then (False, emit (ErrorMsg ''insufficient_coins'') s)
          else deductEntry entryCost ps
                 (updateWhere (\<lambda>q. pid q = pid p) (\<lambda>q. q\<lparr>hasPaidEntry := True\<rparr>)
                    (s\<lparr>coins := (coins s)(userId p \<mapsto> c - entryCost),
                       ledger := ledger s @ [(userId p, - entryCost, ''game_entry'')]\<rparr>)))"

definition start_game :: "nat option \<Rightarrow> string list \<Rightarrow> string list \<Rightarrow> store \<Rightarrow> store" where
  "start_game sockUser themed fb s =
     (case room s of
        None \<Rightarrow> emit (ErrorMsg ''room_not_found'') s
      | Some r \<Rightarrow>
          if sockUser = None \<or> sockUser = Some 0 then emit (ErrorMsg ''not_authenticated'') s
          else if Some (ownerId r) \<noteq> sockUser then emit (ErrorMsg ''only_owner_can_start'') s
          else if status r \<noteq> lobby \<and> status r \<noteq> waiting
          then emit (ErrorMsg ''game_already_started'') s
          else
            let ps = filter isActive (participants s)
            in if length ps < 2 then emit (ErrorMsg ''not_enough_players'') s
               else if gameMode r = ''team_vs_team'' \<and>
                       (length (filter (\<lambda>p. team p = Some ''orange'') ps) = 0 \<or>
                        length (filter (\<lambda>p. team p = Some ''blue'') ps) = 0)
               then emit (ErrorMsg ''both_teams_need_players'') s
               else
                 let entryCost = calculateEntryCost (entryPoints r) (voiceEnabled r)
                 in (case deductEntry entryCost ps s of
                       (False, s1) \<Rightarrow> s1
                     | (True, s1) \<Rightarrow>
                         let r1 = r\<lparr>status := playing, currentRound := 1, drawnUserIds := []\<rparr>
                         in startNewRound themed fb
                              (emit (GameStarted entryCost) (saveRoom r1 s1))))"

text \<open>
  \<^verbatim>\<open>choose_word\<close>. \<^verbatim>\<open>currentWordOptions.includes(word)\<close> is membership for an array and
  the substring test for a string.
\<close>

fun strIncludes :: "string \<Rightarrow> string \<Rightarrow> bool" where
  "strIncludes [] w = (w = [])"
| "strIncludes (c # cs) w = (prefix w (c # cs) \<or> strIncludes cs w)"

fun jsIncludes :: "jsval \<Rightarrow> string \<Rightarrow> bool" where
  "jsIncludes JNull w = False"
| "jsIncludes (JStr v) w = strIncludes v w"
| "jsIncludes (JArr ws) w = (w \<in> set ws)"

definition choose_word :: "nat option \<Rightarrow> string \<Rightarrow> store \<Rightarrow> store" where
  "choose_word sockUser word s =
     (case room s of
        None \<Rightarrow> s
      | Some r \<Rightarrow>
          if currentDrawerId r = None \<or> currentDrawerId r \<noteq> sockUser
          then emit (ErrorMsg ''not_your_turn'') s
          else if roundPhase r \<noteq> Some choosing_word then emit (ErrorMsg ''wrong_phase'') s
          else if falsy (currentWordOptions r) \<or> \<not> jsIncludes (currentWordOptions r) word
          then emit (ErrorMsg ''invalid_word_choice'') s
          else
            let r1 = r\<lparr>currentWord := Some word, currentWordOptions := JNull\<rparr>
            in startDrawingPhase r1 (saveRoom r1 s))"

text \<open>
  \<^verbatim>\<open>skip_turn\<close> checks neither the sender nor the phase. The flags are cleared first;
  the room is saved, and the rotation called, only with two active participants.
\<close>

definition skip_turn :: "string list \<Rightarrow> string list \<Rightarrow> store \<Rightarrow> store" where
  "skip_turn themed fb s =
     (case room s of
        None \<Rightarrow> s
      | Some r \<Rightarrow>
          let s1 = updateWhere (\<lambda>p. True) (\<lambda>p. p\<lparr>isDrawer := False\<rparr>) s
          in if countWhere isActive s1 < 2 then emit (ErrorMsg ''not_enough_players'') s1
             else selectDrawerAndStartWordChoice themed fb
                    (saveRoom (r\<lparr>currentDrawerId := None, currentWord := None,
                                  currentWordOptions := JNull\<rparr>) s1))"

definition select_team :: "nat option \<Rightarrow> string \<Rightarrow> store \<Rightarrow> store" where
  "select_team sockUser t s =
     (if t \<noteq> ''orange'' \<and> t \<noteq> ''blue'' then emit (ErrorMsg ''invalid_team'') s
      else (case room s of
              None \<Rightarrow> emit (ErrorMsg ''room_not_found'') s
            | Some r \<Rightarrow>
                if status r \<noteq> lobby \<and> status r \<noteq> waiting
                then emit (ErrorMsg ''cannot_change_team_after_game_started'') s
                else if gameMode r \<noteq> ''team'' \<and> gameMode r \<noteq> ''team_vs_team''
                then emit (ErrorMsg ''not_team_mode'') s
                else (case sockUser of
                        None \<Rightarrow> emit (ErrorMsg ''select_team_failed'') s
                      | Some user \<Rightarrow>
                          (case findOne (\<lambda>p. userId p = user) s of
                             None \<Rightarrow> emit (ErrorMsg ''not_in_room'') s
                           | Some p \<Rightarrow>
                               updateWhere (\<lambda>q. pid q = pid p) (\<lambda>q. q\<lparr>team := Some t\<rparr>) s))))"

section \<open>The session as a transition system\<close>

text \<open>
  Everything that can happen to a room: the socket commands, the timer callbacks, and
  two moves of the surroundings (the REST routes, which are not part of the engine):
  settings being rewritten, and a user's row being added or switched on or off over
  HTTP. The word lists are what the theme lookup and the random shuffles deliver at that
  moment.
\<close>

datatype action =
    JoinRoom "nat option" string
  | LeaveRoom "nat option"
  | Disconnect "nat option"
  | SelectTeam "nat option" string
  | StartGame "nat option" "string list" "string list"
  | ChooseWord "nat option" string
  | SubmitGuess "nat option" string
  | SkipTurn "string list" "string list"
  | PhaseTick phase onEnd "string list" "string list"
  | DrawingTick
  | RevealTimer
  | EndGameTimer
  | HttpSettings room
  | HttpJoin nat "string option"
  | HttpLeave nat

definition httpSettings :: "room \<Rightarrow> store \<Rightarrow> store" where
  "httpSettings cfg s =
     (case room s of
        None \<Rightarrow> s
      | Some r \<Rightarrow>
          saveRoom (r\<lparr>gameMode := gameMode cfg, entryPoints := entryPoints cfg,
                      targetPoints := targetPoints cfg, maxPointsPerRound := maxPointsPerRound cfg,
                      maxPlayers := maxPlayers cfg, voiceEnabled := voiceEnabled cfg,
                      isPublic := isPublic cfg, themeId := themeId cfg\<rparr>) s)"

definition httpJoin :: "nat \<Rightarrow> string option \<Rightarrow> store \<Rightarrow> store" where
  "httpJoin user t s =
     (case room s of
        None \<Rightarrow> s
      | Some r \<Rightarrow>
          (case findOne (\<lambda>p. userId p = user) s of
             Some p \<Rightarrow>
               updateWhere (\<lambda>q. pid q = pid p) (\<lambda>q. q\<lparr>isActive := True, hasPaidEntry := True\<rparr>) s
           | None \<Rightarrow>
               s\<lparr>participants :=
                    participants s @ [(newParticipant (nextId s) user [])\<lparr>team := t,
                                        hasPaidEntry := True, socketId := None\<rparr>],
                  nextId := nextId s + 1\<rparr>))"

definition httpLeave :: "nat \<Rightarrow> store \<Rightarrow> store" where
  "httpLeave user s =
     (case findOne (\<lambda>p. userId p = user) s of
        None \<Rightarrow> s
      | Some p \<Rightarrow>
          let s1 = updateWhere (\<lambda>q. pid q = pid p) (\<lambda>q. q\<lparr>isActive := False\<rparr>) s
          in (case room s1 of
                None \<Rightarrow> s1
              | Some r \<Rightarrow>
                  if countWhere isActive s1 = 0 then saveRoom (r\<lparr>status := closed\<rparr>) s1
                  else s1))"

fun step :: "action \<Rightarrow> store \<Rightarrow> store" where
  "step (JoinRoom u sock) s = join_room u sock s"
| "step (LeaveRoom u) s = leave_room u s"
| "step (Disconnect u) s = disconnect u s"
| "step (SelectTeam u t) s = select_team u t s"
| "step (StartGame u themed fb) s = start_game u themed fb s"
| "step (ChooseWord u w) s = choose_word u w s"
| "step (SubmitGuess u g) s = submit_guess u g s"
| "step (SkipTurn themed fb) s = skip_turn themed fb s"
| "step (PhaseTick ph cb themed fb) s = phaseTick ph cb themed fb s"
| "step DrawingTick s = drawingTick s"
| "step RevealTimer s = startIntervalPhase s"
| "step EndGameTimer s = endGameTimer s"
| "step (HttpSettings cfg) s = httpSettings cfg s"
| "step (HttpJoin u t) s = httpJoin u t s"
| "step (HttpLeave u) s = httpLeave u s"

definition run :: "action list \<Rightarrow> store \<Rightarrow> store" where
  "run acts s = fold step acts s"

definition drawerCount :: "store \<Rightarrow> nat" where
  "drawerCount s = countWhere isDrawer s"

section \<open>Notions used in the statements\<close>

text \<open>
  The drawers that consecutive selections choose, one selection for each pair of word
  lists (what the theme lookup and the shuffle of the fallback deliver at that selection).
\<close>

fun drawersOf :: "(string list \<times> string list) list \<Rightarrow> store \<Rightarrow> nat option list" where
  "drawersOf [] s = []"
| "drawersOf (w # ws) s =
     (let s1 = selectDrawerAndStartWordChoice (fst w) (snd w) s
      in (case room s1 of None \<Rightarrow> None | Some r \<Rightarrow> currentDrawerId r) # drawersOf ws s1)"

text \<open>
  The rows of a store are well formed when the primary keys are distinct and below the
  auto-increment counter and at most one row has the drawer flag.
\<close>

definition wfRows :: "nat \<Rightarrow> participant list \<Rightarrow> bool" where
  "wfRows n ps = (distinct (map pid ps) \<and> list_all (\<lambda>p. pid p < n) ps \<and>
                  length (filter isDrawer ps) \<le> 1)"

definition wf :: "store \<Rightarrow> bool" where
  "wf s = wfRows (nextId s) (participants s)"

text \<open>
  What a selection does to one row: the old flag is cleared, and the row with the key
  \<open>i\<close> is flagged.
\<close>

definition markDrawer :: "nat \<Rightarrow> participant \<Rightarrow> participant" where
  "markDrawer i p =
     (if pid (if isDrawer p then p\<lparr>isDrawer := False\<rparr> else p) = i
      then (if isDrawer p then p\<lparr>isDrawer := False\<rparr> else p)\<lparr>isDrawer := True, hasDrawn := True\<rparr>
      else (if isDrawer p then p\<lparr>isDrawer := False\<rparr> else p))"

text \<open>
  The alternating sequence in the words of the specification:
  \<open>A[0], B[0], A[1], B[1], ...\<close>, going on with the side that still has entries.
\<close>

fun interleave :: "'a list \<Rightarrow> 'a list \<Rightarrow> 'a list" where
  "interleave [] ys = ys"
| "interleave xs [] = xs"
| "interleave (x # xs) (y # ys) = x # y # interleave xs ys"

text \<open>The room, when there is one, has nobody in its list of drawn users.\<close>

definition untracked :: "store \<Rightarrow> bool" where
  "untracked s = (case room s of None \<Rightarrow> True | Some r \<Rightarrow> drawnUserIds r = [])"

section \<open>Example rooms\<close>

definition player :: "nat \<Rightarrow> string option \<Rightarrow> participant" where
  "player user t =
     \<lparr>pid = user, userId = user, team = t, isDrawer = False, score = 0, hasDrawn = False,
      hasGuessedThisRound = False, hasPaidEntry = True, isActive = True, socketId = None\<rparr>"

definition lobbyRoom :: "string \<Rightarrow> room" where
  "lobbyRoom mode =
     \<lparr>ownerId = 1, gameMode = mode, entryPoints = 250, targetPoints = 100,
      maxPointsPerRound = 10, maxPlayers = 15, voiceEnabled = False, isPublic = False,
      status = lobby, currentWord = None, currentWordOptions = JNull, currentDrawerId = None,
      currentRound = 0, roundPhase = None, roundRemainingTime = 80, drawerPointerIndex = 0,
      themeId = None, drawnUserIds = []\<rparr>"

definition storeOf :: "room \<Rightarrow> participant list \<Rightarrow> store" where
  "storeOf r ps =
     \<lparr>room = Some r, participants = ps, nextId = 100, coins = (\<lambda>u. Some 1000), ledger = [],
      emitted = []\<rparr>"

text \<open>A room in the drawing phase: user 1 draws the word cat, with 70 seconds left.\<close>

definition drawingRoom :: "string \<Rightarrow> room" where
  "drawingRoom mode =
     (lobbyRoom mode)\<lparr>status := playing, currentWord := Some ''cat'', currentDrawerId := Some 1,
                       currentRound := 1, roundPhase := Some drawing, roundRemainingTime := 70,
                       drawerPointerIndex := 1\<rparr>"

text \<open>Two non-drawers in a free-for-all room; and a team room with one blue guesser.\<close>

definition ffaStore :: store where
  "ffaStore = storeOf (drawingRoom ''1v1'')
     [(player 1 None)\<lparr>isDrawer := True\<rparr>, player 2 None, player 3 None]"

definition teamStore :: store where
  "teamStore = storeOf (drawingRoom ''team_vs_team'')
     [(player 1 (Some ''blue''))\<lparr>isDrawer := True\<rparr>, player 2 (Some ''blue''),
      player 3 (Some ''orange''), player 4 (Some ''orange'')]"



text \<open>The free-for-all room with \<open>t\<close> seconds left.\<close>

definition ffaAt :: "int \<Rightarrow> store" where
  "ffaAt t = storeOf ((drawingRoom ''1v1'')\<lparr>roundRemainingTime := t\<rparr>)
     [(player 1 None)\<lparr>isDrawer := True\<rparr>, player 2 None, player 3 None]"

text \<open>Four players at the end of a game.\<close>

definition podium :: "participant list" where
  "podium = [(player 1 None)\<lparr>score := 30\<rparr>, (player 2 None)\<lparr>score := 100\<rparr>,
             (player 3 None)\<lparr>score := 60\<rparr>, (player 4 None)\<lparr>score := 10\<rparr>]"

text \<open>A room for two players that has its two players, both active.\<close>

definition fullStore :: store where
  "fullStore = storeOf ((lobbyRoom ''1v1'')\<lparr>maxPlayers := 2\<rparr>) [player 1 None, player 2 None]"

text \<open>The same room after user 2 has left it and user 3 has taken the place.\<close>

definition refilledStore :: store where
  "refilledStore = storeOf ((lobbyRoom ''1v1'')\<lparr>maxPlayers := 2\<rparr>)
     [player 1 None, (player 2 None)\<lparr>isActive := False\<rparr>, player 3 None]"

text \<open>A playing room with a theme, before the first drawer is chosen.\<close>

definition themedStore :: store where
  "themedStore = storeOf ((lobbyRoom ''1v1'')\<lparr>status := playing, currentRound := 1, themeId := Some 7\<rparr>)
     [player 1 None, player 2 None]"

text \<open>
  A team room in the lobby: users 2 and 4 are blue, users 1 and 3 are orange, user 1 owns
  the room.
\<close>

definition teamLobby :: store where
  "teamLobby = storeOf (lobbyRoom ''team_vs_team'')
     [player 1 (Some ''orange''), player 2 (Some ''blue''), player 3 (Some ''orange''),
      player 4 (Some ''blue'')]"

text \<open>The game starts, two turns are skipped, and user 2 leaves.\<close>

definition teamRun :: "action list" where
  "teamRun = [StartGame (Some 1) [] fallback, SkipTurn [] fallback, SkipTurn [] fallback,
              LeaveRoom (Some 2)]"

text \<open>
  A lobby of two, and the run of a first round up to the reveal: the game starts, the
  preview of five seconds runs out, user 1 chooses the word, user 2 guesses it.
\<close>

definition twoLobby :: store where
  "twoLobby = storeOf (lobbyRoom ''1v1'') [player 1 None, player 2 None]"

definition previewTick :: "nat \<Rightarrow> action" where
  "previewTick u =
     PhaseTick selecting_drawer (ToWordChoice u (JArr [''apple'', ''banana'', ''cat'']) True) [] fallback"

definition firstRound :: "action list" where
  "firstRound = [StartGame (Some 1) [] fallback,
     previewTick 1, previewTick 1, previewTick 1, previewTick 1, previewTick 1, previewTick 1,
     ChooseWord (Some 1) ''cat'', SubmitGuess (Some 2) ''cat'']"

text \<open>
  The room of two after its first round, when user 2 has left in the interval; and the
  lobby of two after both rows were switched off over HTTP.
\<close>

definition aloneStore :: store where
  "aloneStore = run (firstRound @ [RevealTimer, LeaveRoom (Some 2)]) twoLobby"

definition emptyStore :: store where
  "emptyStore = run [HttpLeave 1, HttpLeave 2] twoLobby"

text \<open>
  A lobby of three and a run in which user 2, not the owner, draws and then leaves the
  room.
\<close>

definition threeLobby :: store where
  "threeLobby = storeOf (lobbyRoom ''1v1'') [player 1 None, player 2 None, player 3 None]"

definition drawerLeaves :: "action list" where
  "drawerLeaves = [StartGame (Some 1) [] fallback, SkipTurn [] fallback,
     previewTick 2, previewTick 2, previewTick 2, previewTick 2, previewTick 2, previewTick 2,
     ChooseWord (Some 2) ''cat'', LeaveRoom (Some 2)]"

text \<open>The second round of a game: user 2 has been selected and is choosing a word.\<close>

definition choosingStore :: store where
  "choosingStore = storeOf ((drawingRoom ''1v1'')\<lparr>currentWord := None,
       currentWordOptions := JArr [''apple'', ''banana'', ''cat''], currentDrawerId := Some 2,
       currentRound := 2, roundPhase := Some choosing_word, roundRemainingTime := 10,
       drawerPointerIndex := 2\<rparr>)
     [player 1 None, (player 2 None)\<lparr>isDrawer := True\<rparr>, player 3 None]"

section \<open>Reading and writing the store\<close>

lemma emit_simps [simp]:
  "room (emit e s) = room s" "participants (emit e s) = participants s"
  "nextId (emit e s) = nextId s" "coins (emit e s) = coins s" "ledger (emit e s) = ledger s"
  "emitted (emit e s) = emitted s @ [e]"
  by (simp_all add: emit_def)

lemma saveRoom_simps [simp]:
  "room (saveRoom r s) = Some r" "participants (saveRoom r s) = participants s"
  "nextId (saveRoom r s) = nextId s" "coins (saveRoom r s) = coins s"
  "ledger (saveRoom r s) = ledger s" "emitted (saveRoom r s) = emitted s"
  by (simp_all add: saveRoom_def)

lemma updateWhere_simps [simp]:
  "room (updateWhere P f s) = room s"
  "participants (updateWhere P f s) = map (\<lambda>p. if P p then f p else p) (participants s)"
  "nextId (updateWhere P f s) = nextId s" "coins (updateWhere P f s) = coins s"
  "ledger (updateWhere P f s) = ledger s" "emitted (updateWhere P f s) = emitted s"
  by (simp_all add: updateWhere_def)

lemma countWhere_emit [simp]: "countWhere P (emit e s) = countWhere P s"
  by (simp add: countWhere_def)

lemma countWhere_saveRoom [simp]: "countWhere P (saveRoom r s) = countWhere P s"
  by (simp add: countWhere_def)

lemma findOne_emit [simp]: "findOne P (emit e s) = findOne P s"
  by (simp add: findOne_def)

lemma findOne_saveRoom [simp]: "findOne P (saveRoom r s) = findOne P s"
  by (simp add: findOne_def)

lemma filter_map_keep:
  "(\<And>q. P (g q) = P q) \<Longrightarrow> filter P (map g ps) = map g (filter P ps)"
  by (induction ps) auto

lemma countWhere_updateWhere:
  "(\<And>q. P (f q) = P q) \<Longrightarrow> countWhere P (updateWhere Q f s) = countWhere P s"
  by (simp add: countWhere_def filter_map_keep)

text \<open>endGame and checkGameEnd only write the status, the coins and the ledger.\<close>

lemma endGame_simps [simp]:
  "participants (endGame r ps s) = participants s"
  "room (endGame r ps s) = Some (r\<lparr>status := finished\<rparr>)"
  "nextId (endGame r ps s) = nextId s"
  by (simp_all add: endGame_def Let_def)

lemma checkGameEnd_participants [simp]:
  "participants (snd (checkGameEnd r s)) = participants s"
  by (simp add: checkGameEnd_def Let_def split: option.split)

lemma checkGameEnd_room:
  "room s = Some r \<Longrightarrow>
   room (snd (checkGameEnd r s)) = Some r \<or> room (snd (checkGameEnd r s)) = Some (r\<lparr>status := finished\<rparr>)"
  by (simp add: checkGameEnd_def Let_def split: option.split)

lemma endDrawingPhase_room:
  "room s = Some r \<Longrightarrow>
   \<exists>st. room (endDrawingPhase s) = Some (r\<lparr>roundPhase := Some reveal, status := st\<rparr>)"
proof -
  assume rs: "room s = Some r"
  let ?r1 = "r\<lparr>roundPhase := Some reveal\<rparr>"
  obtain s2 where e: "endDrawingPhase s = snd (checkGameEnd ?r1 s2)" and r2: "room s2 = Some ?r1"
    using rs by (simp add: endDrawingPhase_def Let_def split: option.split)
  from checkGameEnd_room[OF r2] show ?thesis
  proof
    assume "room (snd (checkGameEnd ?r1 s2)) = Some ?r1"
    then have "room (endDrawingPhase s) = Some (r\<lparr>roundPhase := Some reveal, status := status r\<rparr>)"
      using e by simp
    then show ?thesis by blast
  next
    assume "room (snd (checkGameEnd ?r1 s2)) = Some (?r1\<lparr>status := finished\<rparr>)"
    then show ?thesis using e by auto
  qed
qed

lemma checkGuess_InrD:
  assumes "checkGuess s sockUser = Inr (r, p)"
  shows "room s = Some r" "roundPhase r = Some drawing" "\<not> isDrawer p" "\<not> hasGuessedThisRound p"
    "sockUser = Some (userId p)" "findOne (\<lambda>q. userId q = userId p) s = Some p"
    "gameMode r = ''team_vs_team'' \<Longrightarrow> \<not> wrongTeam s r p"
  using assms
  by (auto simp: checkGuess_def findOne_def split: option.splits if_splits dest: find_Some_iff[THEN iffD1])

section \<open>A correct guess\<close>

lemma awardGuess_simps [simp]:
  "room (awardGuess r p s) = room s" "emitted (awardGuess r p s) = emitted s"
  "coins (awardGuess r p s) = coins s" "ledger (awardGuess r p s) = ledger s"
  by (simp_all add: awardGuess_def Let_def)

lemma awardGuess_count:
  "(\<And>q n. P (addScore n q) = P q) \<Longrightarrow> (\<And>q. P (q\<lparr>hasGuessedThisRound := True\<rparr>) = P q) \<Longrightarrow>
   countWhere P (awardGuess r p s) = countWhere P s"
  by (simp add: awardGuess_def Let_def countWhere_updateWhere)

lemma addScore_simps [simp]:
  "pid (addScore n q) = pid q" "userId (addScore n q) = userId q" "team (addScore n q) = team q"
  "isDrawer (addScore n q) = isDrawer q" "isActive (addScore n q) = isActive q"
  "hasGuessedThisRound (addScore n q) = hasGuessedThisRound q" "score (addScore n q) = score q + n"
  by (simp_all add: addScore_def)

lemma reduceTime_room:
  "room s = Some r \<Longrightarrow> room (snd (reduceTime r s)) = Some (fst (reduceTime r s))"
  by (simp add: reduceTime_def Let_def)

lemma reduceTime_simps [simp]:
  "participants (snd (reduceTime r s)) = participants s"
  "emitted (snd (reduceTime r s)) = emitted s"
  "gameMode (fst (reduceTime r s)) = gameMode r"
  "currentDrawerId (fst (reduceTime r s)) = currentDrawerId r"
  "maxPointsPerRound (fst (reduceTime r s)) = maxPointsPerRound r"
  "roundPhase (fst (reduceTime r s)) = roundPhase r"
  by (simp_all add: reduceTime_def Let_def)

lemma reduceTime_time:
  "roundRemainingTime (fst (reduceTime r s)) =
     (let n = countWhere (\<lambda>q. isActive q \<and> \<not> isDrawer q) s; t = roundRemainingTime r
      in if n > 0 then max 0 (t - \<lfloor>real_of_int t / real n\<rfloor>) else t)"
  by (simp add: reduceTime_def Let_def calculateTimeReduction_def)

lemma endDrawingPhase_time:
  "room s = Some r \<Longrightarrow>
   map_option roundRemainingTime (room (endDrawingPhase s)) = Some (roundRemainingTime r)"
  using endDrawingPhase_room[of s r] by auto


lemma correctGuess_time:
  assumes "room s = Some r"
  shows "map_option roundRemainingTime (room (correctGuess r p u s)) =
     Some (let n = countWhere (\<lambda>q. isActive q \<and> \<not> isDrawer q) s; t = roundRemainingTime r
           in if n > 0 then max 0 (t - \<lfloor>real_of_int t / real n\<rfloor>) else t)"
proof -
  let ?s1 = "awardGuess r p s"
  let ?r1 = "fst (reduceTime r ?s1)"
  let ?s3 = "emit (CorrectGuess u (calculateGuessReward (roundRemainingTime r) (maxPointsPerRound r))
               (roundRemainingTime ?r1)) (snd (reduceTime r ?s1))"
  have r3: "room ?s3 = Some ?r1" using assms by (simp add: reduceTime_room)
  have n: "countWhere (\<lambda>q. isActive q \<and> \<not> isDrawer q) ?s1 = countWhere (\<lambda>q. isActive q \<and> \<not> isDrawer q) s"
    by (rule awardGuess_count) simp_all
  have t: "roundRemainingTime ?r1 =
     (let n = countWhere (\<lambda>q. isActive q \<and> \<not> isDrawer q) s; t = roundRemainingTime r
      in if n > 0 then max 0 (t - \<lfloor>real_of_int t / real n\<rfloor>) else t)"
    by (simp only: reduceTime_time n)
  have "correctGuess r p u s = (if guessedCount ?s3 \<ge> eligibleCount ?r1 p ?s3 then endDrawingPhase ?s3 else ?s3)"
    by (simp add: correctGuess_def Let_def split: prod.split)
  then show ?thesis
    using endDrawingPhase_time[OF r3] r3 t by (simp del: Let_def)
qed

lemma submit_guess_correct:
  "checkGuess s sockUser = Inr (r, p) \<Longrightarrow> normalized guess = normalized (wordOf r) \<Longrightarrow>
   submit_guess sockUser guess s = correctGuess r p (userId p) s"
  by (simp add: submit_guess_def)

subsection \<open>Time compression\<close>

text \<open>
  C6, as the code has it. When a guess passes the checks of the handler and matches the
  word, the room's remaining time becomes \<open>max 0 (t - \<lfloor>t / n\<rfloor>)\<close>, where \<open>t\<close> is the time
  the room had when the guess arrived and \<open>n\<close> counts the active participants of the
  room that are not the drawer, of either team; with \<open>n = 0\<close> the time stays as it is.
  The end of the drawing phase that may follow does not touch it.
\<close>

theorem time_compression:
  assumes "checkGuess s sockUser = Inr (r, p)" and "normalized guess = normalized (wordOf r)"
  shows "room s = Some r \<and>
         map_option roundRemainingTime (room (submit_guess sockUser guess s)) =
           Some (let n = countWhere (\<lambda>q. isActive q \<and> \<not> isDrawer q) s; t = roundRemainingTime r
                 in if n > 0 then max 0 (t - \<lfloor>real_of_int t / real n\<rfloor>) else t)"
  using assms checkGuess_InrD(1)[OF assms(1)] correctGuess_time[of s r p "userId p"]
  by (simp only: submit_guess_correct simp_thms)

text \<open>The example of the specification: 70 seconds and two guessers leave 35.\<close>

theorem time_compression_witness:
  "room ffaStore = Some (drawingRoom ''1v1'') \<and>
   roundRemainingTime (drawingRoom ''1v1'') = 70 \<and>
   countWhere (\<lambda>q. isActive q \<and> \<not> isDrawer q) ffaStore = 2 \<and>
   map_option roundRemainingTime (room (submit_guess (Some 2) ''cat'' ffaStore)) = Some 35"
proof -
  have c: "checkGuess ffaStore (Some 2) = Inr (drawingRoom ''1v1'', player 2 None)" by code_simp
  have n: "normalized ''cat'' = normalized (wordOf (drawingRoom ''1v1''))" by code_simp
  have k: "countWhere (\<lambda>q. isActive q \<and> \<not> isDrawer q) ffaStore = 2" by code_simp
  have t: "roundRemainingTime (drawingRoom ''1v1'') = 70" by code_simp
  show ?thesis using time_compression[OF c n] k t by simp
qed

text \<open>
  In the team room the blue guesser is the only eligible guesser of the drawer's team, so
  a divisor scoped to the team would take all 70 seconds; the handler divides by the
  three non-drawers of the room and leaves 47.
\<close>

theorem time_compression_team_counterexample:
  "checkGuess teamStore (Some 2) = Inr (drawingRoom ''team_vs_team'', player 2 (Some ''blue'')) \<and>
   eligibleCount (drawingRoom ''team_vs_team'') (player 2 (Some ''blue'')) teamStore = 1 \<and>
   max 0 (70 - \<lfloor>real_of_int 70 / real 1\<rfloor>) = 0 \<and>
   map_option roundRemainingTime (room (submit_guess (Some 2) ''cat'' teamStore)) = Some 47"
  by code_simp

lemma countWhere_updateWhere_gen:
  "countWhere P (updateWhere Q f s) = countWhere (\<lambda>q. P (if Q q then f q else q)) s"
  by (simp add: countWhere_def filter_map comp_def)





subsection \<open>The early end of the drawing phase\<close>




subsection \<open>The reward of a guess\<close>

lemma endDrawingPhase_participants:
  assumes "room s = Some r"
  shows "participants (endDrawingPhase s) = participants s \<or>
         (\<exists>d n. findOne (\<lambda>q. Some (userId q) = currentDrawerId r) s = Some d \<and>
                participants (endDrawingPhase s)
                  = map (\<lambda>q. if pid q = pid d then addScore n q else q) (participants s))"
  using assms by (auto simp: endDrawingPhase_def Let_def split: option.split)

lemma checkGameEnd_emitted:
  "\<exists>es. emitted (snd (checkGameEnd r s)) = emitted s @ es"
  by (simp add: checkGameEnd_def endGame_def Let_def split: option.split)

lemma endDrawingPhase_emitted:
  "room s = Some r \<Longrightarrow> \<exists>es. emitted (endDrawingPhase s) = emitted s @ es"
proof -
  assume rs: "room s = Some r"
  let ?r1 = "r\<lparr>roundPhase := Some reveal\<rparr>"
  obtain s1 where e: "endDrawingPhase s = snd (checkGameEnd ?r1
     (emit (PhaseChange reveal (PHASE_DURATIONS reveal)) (saveRoom ?r1 s1)))"
     and s1: "emitted s1 = emitted s"
    using rs by (simp add: endDrawingPhase_def Let_def split: option.split)
  obtain es where "emitted (endDrawingPhase s) =
      emitted (emit (PhaseChange reveal (PHASE_DURATIONS reveal)) (saveRoom ?r1 s1)) @ es"
    using checkGameEnd_emitted e by metis
  then show ?thesis using s1 by simp
qed

lemma correctGuess_emitted:
  assumes "room s = Some r"
  shows "\<exists>t es. emitted (correctGuess r p u s) =
           emitted s @ CorrectGuess u (calculateGuessReward (roundRemainingTime r) (maxPointsPerRound r)) t # es"
proof -
  let ?s1 = "awardGuess r p s"
  let ?r1 = "fst (reduceTime r ?s1)"
  let ?ev = "CorrectGuess u (calculateGuessReward (roundRemainingTime r) (maxPointsPerRound r))
               (roundRemainingTime ?r1)"
  let ?s3 = "emit ?ev (snd (reduceTime r ?s1))"
  have r3: "room ?s3 = Some ?r1" using assms by (simp add: reduceTime_room)
  have e3: "emitted ?s3 = emitted s @ [?ev]" by simp
  have c: "correctGuess r p u s = (if guessedCount ?s3 \<ge> eligibleCount ?r1 p ?s3 then endDrawingPhase ?s3 else ?s3)"
    by (simp add: correctGuess_def Let_def split: prod.split)
  show ?thesis
  proof (cases "guessedCount ?s3 \<ge> eligibleCount ?r1 p ?s3")
    case True
    obtain es where "emitted (endDrawingPhase ?s3) = emitted ?s3 @ es"
      using endDrawingPhase_emitted[OF r3] by blast
    then have "emitted (correctGuess r p u s) = emitted s @ ?ev # es"
      using c True e3 by simp
    then show ?thesis by blast
  next
    case False
    then have "emitted (correctGuess r p u s) = emitted s @ ?ev # []" using c e3 by simp
    then show ?thesis by blast
  qed
qed

lemma awardGuess_participants:
  "participants (awardGuess r p s) =
     map (\<lambda>q. (if (if gameMode r = ''team_vs_team'' then team q = team p \<and> isActive q else pid q = pid p)
                then addScore (calculateGuessReward (roundRemainingTime r) (maxPointsPerRound r)) q
                else q)\<lparr>hasGuessedThisRound := hasGuessedThisRound q \<or> pid q = pid p\<rparr>)
       (participants s)"
  by (auto simp: awardGuess_def Let_def addScore_def)

lemma correctGuess_scores:
  assumes "room s = Some r" and "i < length (participants s)"
    and "\<And>q. q \<in> set (participants s) \<Longrightarrow> Some (userId q) = currentDrawerId r \<Longrightarrow>
             pid q \<noteq> pid (participants s ! i)"
  shows "score (participants (correctGuess r p u s) ! i) =
           score (participants s ! i) +
             (if (if gameMode r = ''team_vs_team'' then team (participants s ! i) = team p \<and> isActive (participants s ! i) else pid (participants s ! i) = pid p)
              then calculateGuessReward (roundRemainingTime r) (maxPointsPerRound r) else 0)"
proof -
  let ?s1 = "awardGuess r p s"
  let ?r1 = "fst (reduceTime r ?s1)"
  let ?ev = "CorrectGuess u (calculateGuessReward (roundRemainingTime r) (maxPointsPerRound r))
               (roundRemainingTime ?r1)"
  let ?s3 = "emit ?ev (snd (reduceTime r ?s1))"
  let ?g = "\<lambda>q. (if (if gameMode r = ''team_vs_team'' then team q = team p \<and> isActive q else pid q = pid p)
                then addScore (calculateGuessReward (roundRemainingTime r) (maxPointsPerRound r)) q
                else q)\<lparr>hasGuessedThisRound := hasGuessedThisRound q \<or> pid q = pid p\<rparr>"
  have r3: "room ?s3 = Some ?r1" using assms(1) by (simp add: reduceTime_room)
  have p3: "participants ?s3 = map ?g (participants s)" by (simp add: awardGuess_participants)
  have s3: "score (participants ?s3 ! i) = score (participants s ! i) +
             (if (if gameMode r = ''team_vs_team'' then team (participants s ! i) = team p \<and> isActive (participants s ! i) else pid (participants s ! i) = pid p)
              then calculateGuessReward (roundRemainingTime r) (maxPointsPerRound r) else 0)"
    using assms(2) by (simp add: awardGuess_participants)
  have c: "correctGuess r p u s = (if guessedCount ?s3 \<ge> eligibleCount ?r1 p ?s3 then endDrawingPhase ?s3 else ?s3)"
    by (simp add: correctGuess_def Let_def split: prod.split)
  have "participants (endDrawingPhase ?s3) ! i = participants ?s3 ! i"
    using endDrawingPhase_participants[OF r3]
  proof
    assume "participants (endDrawingPhase ?s3) = participants ?s3"
    then show ?thesis by simp
  next
    assume "\<exists>d n. findOne (\<lambda>q. Some (userId q) = currentDrawerId ?r1) ?s3 = Some d \<and>
                participants (endDrawingPhase ?s3)
                  = map (\<lambda>q. if pid q = pid d then addScore n q else q) (participants ?s3)"
    then obtain d n where d: "findOne (\<lambda>q. Some (userId q) = currentDrawerId ?r1) ?s3 = Some d"
      and e: "participants (endDrawingPhase ?s3)
                  = map (\<lambda>q. if pid q = pid d then addScore n q else q) (participants ?s3)"
      by blast
    from d have "d \<in> set (participants ?s3)" and du: "Some (userId d) = currentDrawerId r"
      by (auto simp: findOne_def find_Some_iff simp del: emit_simps)
    then obtain q where q: "q \<in> set (participants s)" and dq: "d = ?g q"
      using p3 by auto
    have "userId q = userId d" "pid q = pid d" using dq by (auto simp: addScore_def)
    then have "pid d \<noteq> pid (participants s ! i)" using assms(3)[OF q] du by simp
    moreover have "pid (participants ?s3 ! i) = pid (participants s ! i)"
      using assms(2) by (simp add: awardGuess_participants addScore_def)
    ultimately show ?thesis using e assms(2) by (simp add: awardGuess_participants)
  qed
  then show ?thesis using c s3 by simp
qed

text \<open>
  C7. When a guess passes the checks of the handler and matches the word, the first thing
  the handler sends is \<^verbatim>\<open>correct_guess\<close> with
  \<open>points = min \<lceil>t / 8\<rceil> maxPointsPerRound\<close>, where \<open>t\<close> is the remaining time of
  the room as the guess arrived (before the time reduction); and this is what the
  handler adds to the score of the guesser's row, in team mode of every active row of the
  guesser's team, and of no other row. (The drawer's row is set apart: the end of the
  drawing phase, when it follows, adds the drawer's own reward to it.)
\<close>

theorem guess_reward:
  assumes "checkGuess s sockUser = Inr (r, p)" and "normalized guess = normalized (wordOf r)"
  shows "room s = Some r \<and>
         (\<exists>t es. emitted (submit_guess sockUser guess s) =
            emitted s @ CorrectGuess (userId p)
              (min \<lceil>real_of_int (roundRemainingTime r) / 8\<rceil> (maxPointsPerRound r)) t # es) \<and>
         (\<forall>i < length (participants s).
            (\<forall>q \<in> set (participants s).
               Some (userId q) = currentDrawerId r \<longrightarrow> pid q \<noteq> pid (participants s ! i)) \<longrightarrow>
            score (participants (submit_guess sockUser guess s) ! i) =
              score (participants s ! i) +
                (if (if gameMode r = ''team_vs_team''
                     then team (participants s ! i) = team p \<and> isActive (participants s ! i)
                     else pid (participants s ! i) = pid p)
                 then min \<lceil>real_of_int (roundRemainingTime r) / 8\<rceil> (maxPointsPerRound r)
                 else 0))"
proof -
  have rs: "room s = Some r" using assms(1) by (rule checkGuess_InrD(1))
  have sg: "submit_guess sockUser guess s = correctGuess r p (userId p) s"
    using assms by (rule submit_guess_correct)
  have rw: "calculateGuessReward (roundRemainingTime r) (maxPointsPerRound r) =
            min \<lceil>real_of_int (roundRemainingTime r) / 8\<rceil> (maxPointsPerRound r)"
    by (simp add: calculateGuessReward_def)
  show ?thesis
    using rs correctGuess_emitted[OF rs, of p "userId p"] correctGuess_scores[OF rs, of _ p "userId p"]
    unfolding sg rw by blast
qed

text \<open>The examples of the specification: 64 seconds give 8 points, 5 seconds give 1.\<close>

theorem guess_reward_witness:
  "calculateGuessReward 64 10 = 8 \<and> calculateGuessReward 5 10 = 1 \<and>
   score (participants (submit_guess (Some 2) ''cat'' (ffaAt 64)) ! 1) = 8 \<and>
   score (participants (submit_guess (Some 2) ''cat'' (ffaAt 5)) ! 1) = 1"
proof -
  let ?r = "\<lambda>t. (drawingRoom ''1v1'')\<lparr>roundRemainingTime := t\<rparr>"
  have c: "checkGuess (ffaAt t) (Some 2) = Inr (?r t, player 2 None)" for t
    by (simp add: ffaAt_def checkGuess_def storeOf_def drawingRoom_def lobbyRoom_def findOne_def player_def)
  have n: "normalized ''cat'' = normalized (wordOf (?r t))" for t
    by (simp add: drawingRoom_def lobbyRoom_def wordOf_def)
  have k1: "1 < length (participants (ffaAt t))" for t
    by (simp add: ffaAt_def storeOf_def)
  have k2: "\<forall>q \<in> set (participants (ffaAt t)).
               Some (userId q) = currentDrawerId (?r t) \<longrightarrow> pid q \<noteq> pid (participants (ffaAt t) ! 1)" for t
    by (simp add: ffaAt_def storeOf_def drawingRoom_def lobbyRoom_def player_def)
  have k3: "participants (ffaAt t) ! 1 = player 2 None" "gameMode (?r t) \<noteq> ''team_vs_team''"
    "maxPointsPerRound (?r t) = 10" "score (player 2 None) = 0" "roundRemainingTime (?r t) = t" for t
    by (simp_all add: ffaAt_def storeOf_def drawingRoom_def lobbyRoom_def player_def)
  have g: "score (participants (submit_guess (Some 2) ''cat'' (ffaAt t)) ! 1) = min \<lceil>real_of_int t / 8\<rceil> 10" for t
    using guess_reward[OF c n, of t, THEN conjunct2, THEN conjunct2, THEN spec, of 1, THEN mp,
        OF k1, THEN mp, OF k2]
    by (simp only: k3 if_False if_True refl add_0)
  have "calculateGuessReward 64 10 = 8" "calculateGuessReward 5 10 = 1"
    by (simp_all add: calculateGuessReward_def)
  moreover have "min \<lceil>real_of_int 64 / 8\<rceil> 10 = (8::int)" "min \<lceil>real_of_int 5 / 8\<rceil> 10 = (1::int)"
    by simp_all
  ultimately show ?thesis using g[of 64] g[of 5] by (simp only: simp_thms)
qed


lemma fold_awardPlace:
  assumes "k \<le> 3" and "\<forall>i<k. cs (userId (ps ! i)) \<noteq> None"
  shows "fold (awardPlace e ps) [0..<k] (cs, led, rk) =
     ((\<lambda>u. map_option (\<lambda>c. c + (\<Sum>i<k. if userId (ps ! i) = u then e * snd (rewards ! i) else 0)) (cs u)),
      led @ map (\<lambda>i. (userId (ps ! i), e * snd (rewards ! i), rewardReason (fst (rewards ! i)))) [0..<k],
      rk @ map (\<lambda>i. \<lparr>place = fst (rewards ! i), rankUserId = userId (ps ! i),
                      rankScore = score (ps ! i), coinsAwarded = e * snd (rewards ! i)\<rparr>) [0..<k])"
  using assms
proof (induction k)
  case 0
  then show ?case by (simp add: option.map_ident fun_eq_iff option.map_id0)
next
  case (Suc k)
  then obtain c where c: "cs (userId (ps ! k)) = Some c" by auto
  have ih: "fold (awardPlace e ps) [0..<k] (cs, led, rk) =
     ((\<lambda>u. map_option (\<lambda>c. c + (\<Sum>i<k. if userId (ps ! i) = u then e * snd (rewards ! i) else 0)) (cs u)),
      led @ map (\<lambda>i. (userId (ps ! i), e * snd (rewards ! i), rewardReason (fst (rewards ! i)))) [0..<k],
      rk @ map (\<lambda>i. \<lparr>place = fst (rewards ! i), rankUserId = userId (ps ! i),
                      rankScore = score (ps ! i), coinsAwarded = e * snd (rewards ! i)\<rparr>) [0..<k])"
    using Suc by simp
  have "fold (awardPlace e ps) [0..<Suc k] (cs, led, rk) =
          awardPlace e ps k (fold (awardPlace e ps) [0..<k] (cs, led, rk))"
    by simp
  also have "\<dots> = awardPlace e ps k
     ((\<lambda>u. map_option (\<lambda>c. c + (\<Sum>i<k. if userId (ps ! i) = u then e * snd (rewards ! i) else 0)) (cs u)),
      led @ map (\<lambda>i. (userId (ps ! i), e * snd (rewards ! i), rewardReason (fst (rewards ! i)))) [0..<k],
      rk @ map (\<lambda>i. \<lparr>place = fst (rewards ! i), rankUserId = userId (ps ! i),
                      rankScore = score (ps ! i), coinsAwarded = e * snd (rewards ! i)\<rparr>) [0..<k])"
    by (simp only: ih)
  also have "\<dots> =
     ((\<lambda>u. map_option (\<lambda>c. c + (\<Sum>i<Suc k. if userId (ps ! i) = u then e * snd (rewards ! i) else 0)) (cs u)),
      led @ map (\<lambda>i. (userId (ps ! i), e * snd (rewards ! i), rewardReason (fst (rewards ! i)))) [0..<Suc k],
      rk @ map (\<lambda>i. \<lparr>place = fst (rewards ! i), rankUserId = userId (ps ! i),
                      rankScore = score (ps ! i), coinsAwarded = e * snd (rewards ! i)\<rparr>) [0..<Suc k])"
    by (auto simp: awardPlace_def c Let_def fun_eq_iff)
  finally show ?case .
qed

lemma rewards_nth:
  assumes "i < 3"
  shows "rewards ! i = (i + 1, if i = 0 then 3 else if i = 1 then 2 else if i = 2 then 1 else 0)"
proof -
  from assms have "i = 0 \<or> i = 1 \<or> i = 2" by arith
  then show ?thesis by (auto simp: rewards_def)
qed

lemma rewardReason_nth:
  assumes "i < 3"
  shows "rewardReason (i + 1) =
     [''game_reward_place_1'', ''game_reward_place_2'', ''game_reward_place_3''] ! i"
proof -
  let ?tags = "[''game_reward_place_1'', ''game_reward_place_2'', ''game_reward_place_3'']"
  have a: "rewardReason (0 + 1) = ?tags ! 0" "rewardReason (1 + 1) = ?tags ! 1"
    "rewardReason (2 + 1) = ?tags ! 2"
    by code_simp+
  from assms consider "i = 0" | "i = 1" | "i = 2" by arith
  then show ?thesis by cases (simp_all only: a)
qed

lemma upt_split3: "[0..<min n 3] @ [3..<n] = [0..<n]"
proof (cases "n \<le> 3")
  case True
  then show ?thesis by (simp add: min_def)
next
  case False
  then have "[0..<n] = [0..<3] @ [3..<n]"
    by (metis le_add_diff_inverse nat_le_linear upt_add_eq_append zero_le)
  with False show ?thesis by (simp add: min_def)
qed

subsection \<open>The payout\<close>

text \<open>
  C9. \<^verbatim>\<open>endGame\<close> ranks the participants it is given by descending score, sets the room's
  status to finished, credits \<open>entryPoints\<close> times 3, 2 and 1 to the users of the first
  three ranks, writes one ledger row for each of them with the reason
  \<^verbatim>\<open>game_reward_place_\<close> and the rank, and announces a ranking in which every later
  rank has no coins. The hypothesis says that the users exist, as the foreign key of the
  participant rows has it.
\<close>

theorem endGame_payout:
  assumes "\<forall>p \<in> set ps. coins s (userId p) \<noteq> None"
  shows "let ranked = sort_key (\<lambda>p. - score p) ps;
             n = length ps;
             e = entryPoints r;
             mult = (\<lambda>i::nat. if i = 0 then 3 else if i = 1 then 2 else if i = 2 then 1 else (0::int));
             s' = endGame r ps s
         in mset ranked = mset ps \<and> sorted (map (\<lambda>p. - score p) ranked) \<and>
            room s' = Some (r\<lparr>status := finished\<rparr>) \<and>
            ledger s' = ledger s @
              map (\<lambda>i. (userId (ranked ! i), e * mult i,
                         [''game_reward_place_1'', ''game_reward_place_2'',
                          ''game_reward_place_3''] ! i)) [0..<min n 3] \<and>
            emitted s' = emitted s @
              [GameEnded (map (\<lambda>i. \<lparr>place = i + 1, rankUserId = userId (ranked ! i),
                                     rankScore = score (ranked ! i), coinsAwarded = e * mult i\<rparr>)
                            [0..<n]) e] \<and>
            (\<forall>u. coins s' u =
                   map_option (\<lambda>c. c + (\<Sum>i<min n 3. if userId (ranked ! i) = u then e * mult i else 0))
                     (coins s u))"
proof -
  define ranked where "ranked = sort_key (\<lambda>p. - score p) ps"
  define k where "k = min (length ps) 3"
  define e where "e = entryPoints r"
  define mult :: "nat \<Rightarrow> int" where
    "mult = (\<lambda>i. if i = 0 then 3 else if i = 1 then 2 else if i = 2 then 1 else 0)"
  have len: "length ranked = length ps" by (simp add: ranked_def)
  have k3: "k \<le> 3" and kn: "k \<le> length ranked" by (simp_all add: k_def len)
  have ex: "\<forall>i<k. coins s (userId (ranked ! i)) \<noteq> None"
  proof (intro allI impI)
    fix i assume "i < k"
    then have "ranked ! i \<in> set ranked" using kn by simp
    then have "ranked ! i \<in> set ps" by (simp add: ranked_def)
    then show "coins s (userId (ranked ! i)) \<noteq> None" using assms by blast
  qed
  have po: "e * snd (rewards ! i) = e * mult i" if "i < k" for i
    using that k3 by (simp add: rewards_nth mult_def)
  have pl: "fst (rewards ! i) = i + 1" if "i < k" for i
    using that k3 by (simp add: rewards_nth)
  have rr: "rewardReason (fst (rewards ! i)) =
      [''game_reward_place_1'', ''game_reward_place_2'', ''game_reward_place_3''] ! i" if "i < k" for i
    using that k3 pl[OF that] rewardReason_nth[of i] by simp
  have f: "fold (awardPlace e ranked) [0..<k] (coins s, ledger s, []) =
     ((\<lambda>u. map_option (\<lambda>c. c + (\<Sum>i<k. if userId (ranked ! i) = u then e * snd (rewards ! i) else 0)) (coins s u)),
      ledger s @ map (\<lambda>i. (userId (ranked ! i), e * snd (rewards ! i), rewardReason (fst (rewards ! i)))) [0..<k],
      [] @ map (\<lambda>i. \<lparr>place = fst (rewards ! i), rankUserId = userId (ranked ! i),
                      rankScore = score (ranked ! i), coinsAwarded = e * snd (rewards ! i)\<rparr>) [0..<k])"
    by (rule fold_awardPlace[OF k3 ex])
  have led: "map (\<lambda>i. (userId (ranked ! i), e * snd (rewards ! i), rewardReason (fst (rewards ! i)))) [0..<k] =
             map (\<lambda>i. (userId (ranked ! i), e * mult i,
                   [''game_reward_place_1'', ''game_reward_place_2'', ''game_reward_place_3''] ! i)) [0..<k]"
    by (rule map_cong) (simp_all add: po rr)
  have rk1: "map (\<lambda>i. \<lparr>place = fst (rewards ! i), rankUserId = userId (ranked ! i),
                      rankScore = score (ranked ! i), coinsAwarded = e * snd (rewards ! i)\<rparr>) [0..<k] =
             map (\<lambda>i. \<lparr>place = i + 1, rankUserId = userId (ranked ! i),
                      rankScore = score (ranked ! i), coinsAwarded = e * mult i\<rparr>) [0..<k]"
    by (rule map_cong) (simp_all add: po pl)
  have rk2: "map (unrewarded ranked) [3..<length ranked] =
             map (\<lambda>i. \<lparr>place = i + 1, rankUserId = userId (ranked ! i),
                      rankScore = score (ranked ! i), coinsAwarded = e * mult i\<rparr>) [3..<length ranked]"
    by (rule map_cong) (simp_all add: unrewarded_def mult_def)
  have rk: "map (\<lambda>i. \<lparr>place = fst (rewards ! i), rankUserId = userId (ranked ! i),
                      rankScore = score (ranked ! i), coinsAwarded = e * snd (rewards ! i)\<rparr>) [0..<k]
            @ map (unrewarded ranked) [3..<length ranked] =
            map (\<lambda>i. \<lparr>place = i + 1, rankUserId = userId (ranked ! i),
                      rankScore = score (ranked ! i), coinsAwarded = e * mult i\<rparr>) [0..<length ps]"
  proof -
    let ?g = "\<lambda>i. \<lparr>place = i + 1, rankUserId = userId (ranked ! i),
                      rankScore = score (ranked ! i), coinsAwarded = e * mult i\<rparr>"
    have "map ?g [0..<k] @ map ?g [3..<length ranked] = map ?g ([0..<k] @ [3..<length ranked])"
      by simp
    also have "\<dots> = map ?g [0..<length ps]"
      by (simp only: k_def len upt_split3)
    finally show ?thesis by (simp only: rk1 rk2)
  qed
  have sm: "(\<Sum>i<k. if userId (ranked ! i) = u then e * snd (rewards ! i) else 0) =
            (\<Sum>i<k. if userId (ranked ! i) = u then e * mult i else 0)" for u
    by (rule sum.cong) (simp_all add: po)
  have eg: "endGame r ps s =
      emit (GameEnded (snd (snd (fold (awardPlace e ranked) [0..<k] (coins s, ledger s, [])))
                        @ map (unrewarded ranked) [3..<length ranked]) e)
        ((saveRoom (r\<lparr>status := finished\<rparr>) s)
           \<lparr>coins := fst (fold (awardPlace e ranked) [0..<k] (coins s, ledger s, [])),
            ledger := fst (snd (fold (awardPlace e ranked) [0..<k] (coins s, ledger s, [])))\<rparr>)"
    by (simp add: endGame_def Let_def ranked_def k_def e_def calculateEntryCost_def len)
  have "mset ranked = mset ps" "sorted (map (\<lambda>p. - score p) ranked)"
    by (simp_all add: ranked_def)
  moreover have "room (endGame r ps s) = Some (r\<lparr>status := finished\<rparr>)" by simp
  moreover have "ledger (endGame r ps s) = ledger s @
              map (\<lambda>i. (userId (ranked ! i), e * mult i,
                   [''game_reward_place_1'', ''game_reward_place_2'', ''game_reward_place_3''] ! i)) [0..<k]"
    unfolding eg f by (simp add: led)
  moreover have "emitted (endGame r ps s) = emitted s @
              [GameEnded (map (\<lambda>i. \<lparr>place = i + 1, rankUserId = userId (ranked ! i),
                                     rankScore = score (ranked ! i), coinsAwarded = e * mult i\<rparr>)
                            [0..<length ps]) e]"
    unfolding eg f using rk by simp
  moreover have "\<forall>u. coins (endGame r ps s) u =
       map_option (\<lambda>c. c + (\<Sum>i<k. if userId (ranked ! i) = u then e * mult i else 0)) (coins s u)"
    unfolding eg f by (simp add: sm)
  ultimately show ?thesis
    unfolding Let_def ranked_def[symmetric] k_def[symmetric] e_def[symmetric] mult_def[symmetric]
    by blast
qed

text \<open>The example of the specification: with 250 entry points the ranks get 750, 500, 250 and 0.\<close>

theorem endGame_payout_witness:
  "ledger (endGame (lobbyRoom ''1v1'') podium (storeOf (lobbyRoom ''1v1'') podium)) =
     [(2, 750, ''game_reward_place_1''), (3, 500, ''game_reward_place_2''),
      (1, 250, ''game_reward_place_3'')] \<and>
   emitted (endGame (lobbyRoom ''1v1'') podium (storeOf (lobbyRoom ''1v1'') podium)) =
     [GameEnded [\<lparr>place = 1, rankUserId = 2, rankScore = 100, coinsAwarded = 750\<rparr>,
                 \<lparr>place = 2, rankUserId = 3, rankScore = 60, coinsAwarded = 500\<rparr>,
                 \<lparr>place = 3, rankUserId = 1, rankScore = 30, coinsAwarded = 250\<rparr>,
                 \<lparr>place = 4, rankUserId = 4, rankScore = 10, coinsAwarded = 0\<rparr>] 250] \<and>
   map_option status (room (endGame (lobbyRoom ''1v1'') podium (storeOf (lobbyRoom ''1v1'') podium)))
     = Some finished"
proof -
  have h: "\<forall>p \<in> set podium. coins (storeOf (lobbyRoom ''1v1'') podium) (userId p) \<noteq> None"
    by (simp add: storeOf_def)
  have r: "sort_key (\<lambda>p. - score p) podium =
      [(player 2 None)\<lparr>score := 100\<rparr>, (player 3 None)\<lparr>score := 60\<rparr>,
       (player 1 None)\<lparr>score := 30\<rparr>, (player 4 None)\<lparr>score := 10\<rparr>]"
    by code_simp
  have n: "length podium = 4" "min (length podium) 3 = 3" "[0..<3] = [0, 1, 2]"
    "[0..<4] = [0, 1, 2, 3]" "entryPoints (lobbyRoom ''1v1'') = 250"
    "ledger (storeOf (lobbyRoom ''1v1'') podium) = []"
    "emitted (storeOf (lobbyRoom ''1v1'') podium) = []"
    by code_simp+
  show ?thesis
    using endGame_payout[OF h, of "lobbyRoom ''1v1''"]
    by (simp add: Let_def r n player_def)
qed


section \<open>Joining a room\<close>

text \<open>
  C10, first half: a user whose row exists and is inactive is let in whatever the number
  of active rows, and the row is switched on again with the new socket.
\<close>

lemma join_room_rejoin:
  assumes "room s = Some r" and "findOne (\<lambda>q. userId q = u) s = Some p" and "\<not> isActive p"
  shows "emitted (join_room (Some u) sock s) = emitted s @ [RoomJoined True]"
    and "participants (join_room (Some u) sock s) =
           map (\<lambda>q. if userId q = u then q\<lparr>socketId := Some sock, isActive := True\<rparr> else q)
             (participants s)"
  using assms by (simp_all add: join_room_def isRejoining_def Let_def)

text \<open>
  C10, second half. The room is full and user 1 is one of its two active participants;
  the user's socket sends \<^verbatim>\<open>join_room\<close> again (a second tab, or a reconnect before the
  disconnect was seen). The user has a row in the room, and the answer is
  \<^verbatim>\<open>room_full\<close>: the check is skipped only for inactive rows.
\<close>

theorem join_room_active_member_room_full:
  "findOne (\<lambda>q. userId q = 1) fullStore = Some (player 1 None) \<and>
   emitted (join_room (Some 1) ''socket-2'' fullStore) = [ErrorMsg ''room_full''] \<and>
   participants (join_room (Some 1) ''socket-2'' fullStore) = participants fullStore \<and>
   emitted (join_room (Some 2) ''socket-3'' refilledStore) = [RoomJoined True] \<and>
   countWhere isActive (join_room (Some 2) ''socket-3'' refilledStore) = 3"
  by code_simp

section \<open>The words offered to the drawer\<close>

text \<open>
  Without a theme, without a word for the theme, or with a word of fewer than three
  characters, the drawer gets three words of the fallback list.
\<close>

lemma wordOptions_fallback:
  assumes "themeId r = None \<or> themed = [] \<or> length (hd themed) < 3" and "3 \<le> length fb"
  shows "\<exists>a b c. wordOptions r themed fb = JArr [a, b, c]"
proof -
  obtain a b c rest where fb: "fb = a # b # c # rest"
    using assms(2) by (metis Suc_le_length_iff numeral_3_eq_3)
  have "wordOptions r themed fb = JArr (take 3 fb)"
    using assms(1)
    by (cases themed)
       (auto simp: wordOptions_def getRandomWordForTheme_def getWordsForTheme_def Let_def)
  then show ?thesis by (simp add: fb)
qed

text \<open>
  C8 on the code. The theme of the room has the words tree, cat and dog.
  \<^verbatim>\<open>getRandomWordForTheme\<close> gives the single string tree; its length, 4, passes the test
  \<^verbatim>\<open>words.length < 3\<close> that was written for an array, and the string is stored as
  \<^verbatim>\<open>currentWordOptions\<close> and sent to the drawer as the \<^verbatim>\<open>words\<close> of \<^verbatim>\<open>word_options\<close>.
\<close>

theorem word_options_single_string:
  "getRandomWordForTheme [''tree'', ''cat'', ''dog''] = JStr ''tree'' \<and>
   map_option currentWordOptions
     (room (selectDrawerAndStartWordChoice [''tree'', ''cat'', ''dog''] fallback themedStore))
     = Some (JStr ''tree'') \<and>
   map_option currentDrawerId
     (room (selectDrawerAndStartWordChoice [''tree'', ''cat'', ''dog''] fallback themedStore))
     = Some (Some 1) \<and>
   getWordsForTheme [''tree'', ''cat'', ''dog''] 3 = [''tree'', ''cat'', ''dog'']"
  by code_simp

section \<open>Rotation in team mode\<close>

text \<open>
  C3 on the code. Users 2 and 4 are blue, users 1 and 3 are orange: the alternating list
  is 2, 1, 4, 3. The game starts and user 2 draws; the turn is skipped twice, and users 1
  and 4 draw, which leaves the pointer at 3. Each selection pushes its drawer into the
  array of the loaded row and assigns that array back, so no selection writes the column:
  \<^verbatim>\<open>drawnUserIds\<close> is empty after the first selection and after the third. Then user 2
  leaves the room, and the alternating list is 4, 1, 3. The next selection finds nobody
  in \<^verbatim>\<open>drawnUserIds\<close> and takes the candidate at the pointer, user 4, who has just drawn,
  while user 3 of the orange team is active and has not drawn in this game. With the
  three drawers in the list the same walk passes over users 4 and 1 and selects user 3.
\<close>

theorem team_rotation_forgets_who_drew:
  "map_option currentDrawerId (room (run [StartGame (Some 1) [] fallback] teamLobby)) = Some (Some 2) \<and>
   map_option drawnUserIds (room (run [StartGame (Some 1) [] fallback] teamLobby)) = Some [] \<and>
   map_option gameMode (room (run teamRun teamLobby)) = Some ''team_vs_team'' \<and>
   map_option currentDrawerId (room (run teamRun teamLobby)) = Some (Some 4) \<and>
   map_option drawerPointerIndex (room (run teamRun teamLobby)) = Some 3 \<and>
   map_option drawnUserIds (room (run teamRun teamLobby)) = Some [] \<and>
   map (\<lambda>p. (userId p, team p, hasDrawn p)) (activeSorted (run teamRun teamLobby))
     = [(1, Some ''orange'', True), (3, Some ''orange'', False), (4, Some ''blue'', True)] \<and>
   map_option currentDrawerId (room (skip_turn [] fallback (run teamRun teamLobby))) = Some (Some 4) \<and>
   map (\<lambda>p. (userId p, isDrawer p, hasDrawn p)) (activeSorted (skip_turn [] fallback (run teamRun teamLobby)))
     = [(1, False, True), (3, False, False), (4, True, True)] \<and>
   map_option drawnUserIds (room (skip_turn [] fallback (run teamRun teamLobby))) = Some [] \<and>
   map_option userId
     (fst (teamRotation 3 [2, 1, 4]
        (alternatingList
           (filter (\<lambda>p. team p = Some ''blue'') (activeSorted (run teamRun teamLobby)))
           (filter (\<lambda>p. team p = Some ''orange'') (activeSorted (run teamRun teamLobby))))))
     = Some 3"
  by code_simp

text \<open>The loop that builds the alternating list interleaves the two teams.\<close>

lemma alternating_step:
  "concat (map (\<lambda>i. (if i < length (x # xs) then [(x # xs) ! i] else [])
                    @ (if i < length (y # ys) then [(y # ys) ! i] else []))
             [0..<Suc n])
   = x # y # concat (map (\<lambda>i. (if i < length xs then [xs ! i] else [])
                                @ (if i < length ys then [ys ! i] else [])) [0..<n])"
proof -
  have "[0..<Suc n] = 0 # map Suc [0..<n]"
    by (simp add: map_Suc_upt upt_conv_Cons del: upt_Suc)
  then show ?thesis by (simp add: comp_def del: upt_Suc cong del: if_weak_cong)
qed

lemma alternating_left:
  fixes xs :: "participant list"
  shows "concat (map (\<lambda>i. (if i < length xs then [xs ! i] else []) @ []) [0..<length xs]) = xs"
proof -
  have "concat (map (\<lambda>i. (if i < length xs then [xs ! i] else []) @ []) [0..<length xs])
        = concat (map (\<lambda>i. [xs ! i]) [0..<length xs])"
    by (rule arg_cong[where f = concat]) (rule map_cong, simp_all)
  also have "\<dots> = map (\<lambda>i. xs ! i) [0..<length xs]"
    by (induction "length xs" arbitrary: xs) (simp_all add: concat_map_singleton)
  also have "\<dots> = xs" by (rule map_nth)
  finally show ?thesis .
qed

lemma alternatingList_interleave: "alternatingList b c = interleave b c"
proof (induction b c rule: interleave.induct)
  case (1 ys)
  have "concat (map (\<lambda>i. [] @ (if i < length ys then [ys ! i] else [])) [0..<length ys]) = ys"
    using alternating_left[of ys] by simp
  then show ?case by (simp add: alternatingList_def)
next
  case (2 v va)
  have "concat (map (\<lambda>i. (if i < length (v # va) then [(v # va) ! i] else []) @ []) [0..<length (v # va)]) = v # va"
    by (rule alternating_left)
  then show ?case by (simp add: alternatingList_def del: upt_Suc)
next
  case (3 x xs y ys)
  have "max (length (x # xs)) (length (y # ys)) = Suc (max (length xs) (length ys))" by simp
  then show ?case
    using 3 by (simp only: alternatingList_def alternating_step interleave.simps)
qed

text \<open>
  The walk on the list it is handed. While somebody of the alternating list is not among
  the drawn users, the walk from the pointer selects the first such candidate and moves
  the pointer behind it; the array in hand is still the row's.
\<close>

lemma teamRotation_fresh:
  assumes "\<exists>p \<in> set alt. userId p \<notin> set drawn"
  shows "\<exists>i < length alt.
           teamRotation pointer drawn alt
             = (Some (alt ! ((pointer + i) mod length alt)),
                ((pointer + i) mod length alt + 1) mod length alt, RowArray drawn)
         \<and> userId (alt ! ((pointer + i) mod length alt)) \<notin> set drawn
         \<and> (\<forall>j < i. userId (alt ! ((pointer + j) mod length alt)) \<in> set drawn)"
proof -
  let ?n = "length alt"
  let ?P = "\<lambda>i. userId (alt ! ((pointer + i) mod ?n)) \<notin> set drawn"
  from assms obtain k where k: "k < ?n" "userId (alt ! k) \<notin> set drawn"
    by (auto simp: in_set_conv_nth)
  from k(1) have n: "0 < ?n" by (cases alt) simp_all
  define i where "i = (k + ?n - pointer mod ?n) mod ?n"
  have "(pointer + i) mod ?n = (pointer mod ?n + (k + ?n - pointer mod ?n)) mod ?n"
    unfolding i_def by (metis mod_add_left_eq mod_add_right_eq)
  also have "pointer mod ?n + (k + ?n - pointer mod ?n) = k + ?n"
  proof -
    from n have "pointer mod ?n < ?n" by simp
    then show ?thesis by linarith
  qed
  also have "(k + ?n) mod ?n = k" using k(1) by simp
  finally have "?P i" using k(2) by simp
  moreover have "i < ?n" unfolding i_def using n by simp
  ultimately have ex: "\<exists>x \<in> set [0..<?n]. ?P x" by auto
  then obtain i0 where f: "List.find ?P [0..<?n] = Some i0"
    by (cases "List.find ?P [0..<?n]") (auto simp: find_None_iff)
  then have "i0 < ?n" "?P i0" "\<forall>j < i0. \<not> ?P j"
    by (auto simp: find_Some_iff)
  moreover have "teamRotation pointer drawn alt
     = (Some (alt ! ((pointer + i0) mod ?n)), ((pointer + i0) mod ?n + 1) mod ?n, RowArray drawn)"
    using f by (simp add: teamRotation_def Let_def)
  ultimately show ?thesis by blast
qed

text \<open>
  When everybody of the alternating list is among the drawn users and the pointer is
  inside the list, the cycle is reset: a new, empty array replaces the list and the
  candidate at the pointer is selected.
\<close>

lemma teamRotation_reset:
  assumes "\<forall>p \<in> set alt. userId p \<in> set drawn" and "pointer < length alt"
  shows "teamRotation pointer drawn alt
           = (Some (alt ! pointer), (pointer + 1) mod length alt, NewArray [])"
proof -
  have "List.find (\<lambda>i. userId (alt ! ((pointer + i) mod length alt)) \<notin> set drawn)
          [0..<length alt] = None"
  proof -
    have "userId (alt ! ((pointer + i) mod length alt)) \<in> set drawn" for i
    proof -
      from assms(2) have "0 < length alt" by (cases alt) simp_all
      then have "(pointer + i) mod length alt < length alt" by simp
      then have "alt ! ((pointer + i) mod length alt) \<in> set alt" by (rule nth_mem)
      then show ?thesis using assms(1) by blast
    qed
    then show ?thesis by (simp add: find_None_iff)
  qed
  then show ?thesis using assms(2) by (simp add: teamRotation_def Let_def nthOpt_def)
qed

text \<open>With the pointer outside the list, the reset selects nobody.\<close>

lemma teamRotation_reset_outside:
  assumes "\<forall>p \<in> set alt. userId p \<in> set drawn" and "length alt \<le> pointer"
  shows "fst (teamRotation pointer drawn alt) = None"
proof -
  have "List.find (\<lambda>i. userId (alt ! ((pointer + i) mod length alt)) \<notin> set drawn)
          [0..<length alt] = None"
    using assms(1) by (cases "alt = []") (auto simp: find_None_iff)
  then show ?thesis using assms(2) by (simp add: teamRotation_def Let_def nthOpt_def)
qed

text \<open>With an empty team, team mode falls back to the flat rotation.\<close>

lemma chooseDrawer_empty_team:
  assumes "\<forall>p \<in> set ps. team p \<noteq> Some ''blue''"
  shows "chooseDrawer r ps = (fst (flatRotation (drawerPointerIndex r) ps),
                              snd (flatRotation (drawerPointerIndex r) ps), RowArray (drawnUserIds r))"
proof -
  have "filter (\<lambda>p. team p = Some ''blue'') ps = []"
    using assms by (simp add: filter_empty_conv)
  then show ?thesis by (simp add: chooseDrawer_def Let_def)
qed

text \<open>
  What the rows keep of the rotation. A selection that finds its drawer by the walk, or
  by flat rotation, has the row's own array in hand and writes nothing to the column.
\<close>

lemma untracked_room: "room s1 = room s \<Longrightarrow> untracked s1 = untracked s"
  by (simp add: untracked_def)

lemma untracked_emit [simp]: "untracked (emit e s) = untracked s"
  by (simp add: untracked_def)

lemma untracked_updateWhere [simp]: "untracked (updateWhere P f s) = untracked s"
  by (simp add: untracked_def)

lemma untracked_saveRoom [simp]: "untracked (saveRoom r s) = (drawnUserIds r = [])"
  by (simp add: untracked_def)

lemma untracked_Some: "untracked s \<Longrightarrow> room s = Some r \<Longrightarrow> drawnUserIds r = []"
  by (simp add: untracked_def)

lemma interleave_nonempty: "b \<noteq> [] \<Longrightarrow> interleave b c \<noteq> []"
  by (cases b; cases c) simp_all

lemma teamRotation_untracked:
  assumes "alt \<noteq> []"
  shows "\<exists>d p. teamRotation pointer [] alt = (d, p, RowArray [])"
proof -
  have "List.find (\<lambda>i. userId (alt ! ((pointer + i) mod length alt)) \<notin> set [])
          [0..<length alt] \<noteq> None"
  proof -
    from assms have "0 < length alt" by (cases alt) simp_all
    then have "\<exists>x. x < length alt" by blast
    then show ?thesis by (simp add: find_None_iff)
  qed
  then show ?thesis by (auto simp: teamRotation_def Let_def)
qed

lemma chooseDrawer_untracked:
  assumes "drawnUserIds r = []"
  shows "\<exists>d p. chooseDrawer r ps = (d, p, RowArray [])"
proof -
  let ?b = "sort_key userId (filter (\<lambda>p. team p = Some ''blue'') ps)"
  let ?o = "sort_key userId (filter (\<lambda>p. team p = Some ''orange'') ps)"
  show ?thesis
  proof (cases "gameMode r = ''1v1'' \<or> ?b = [] \<or> ?o = []")
    case True
    then show ?thesis using assms by (auto simp: chooseDrawer_def Let_def)
  next
    case False
    then have "alternatingList ?b ?o \<noteq> []"
      by (simp only: alternatingList_interleave) (rule interleave_nonempty, simp)
    from teamRotation_untracked[OF this, of "drawerPointerIndex r"] False assms
    show ?thesis by (simp add: chooseDrawer_def Let_def)
  qed
qed

lemma untracked_startPhaseTimerAndBroadcast [simp]:
  "untracked (startPhaseTimerAndBroadcast r ph s) = (drawnUserIds r = [])"
  by (simp add: startPhaseTimerAndBroadcast_def Let_def)

lemma untracked_select: "untracked s \<Longrightarrow> untracked (selectDrawerAndStartWordChoice themed fb s)"
proof (cases "room s")
  case None
  then show ?thesis by (simp add: selectDrawerAndStartWordChoice_def untracked_def)
next
  case (Some r)
  assume u: "untracked s"
  then have d: "drawnUserIds r = []" using Some by (rule untracked_Some)
  obtain nd p where ch: "chooseDrawer r (activeSorted s) = (nd, p, RowArray [])"
    using chooseDrawer_untracked[OF d] by blast
  show ?thesis using u d
    by (cases nd) (simp_all add: selectDrawerAndStartWordChoice_def Some ch Let_def)
qed

lemma untracked_startNewRound: "untracked s \<Longrightarrow> untracked (startNewRound themed fb s)"
  by (simp add: startNewRound_def Let_def untracked_select)

lemma untracked_onEndCallback:
  "untracked s \<Longrightarrow> drawnUserIds r = [] \<Longrightarrow> untracked (onEndCallback cb r themed fb s)"
  by (cases cb)
     (simp_all add: startWordChoicePhase_def drawerTimedOut_def Let_def untracked_select
        untracked_startNewRound)

lemma untracked_phaseTick: "untracked s \<Longrightarrow> untracked (phaseTick ph cb themed fb s)"
  by (auto simp: phaseTick_def untracked_onEndCallback untracked_Some split: option.splits)

lemma untracked_endGame [simp]: "untracked (endGame r ps s) = (drawnUserIds r = [])"
  by (simp add: untracked_def)

lemma untracked_checkGameEnd:
  "untracked s \<Longrightarrow> drawnUserIds r = [] \<Longrightarrow> untracked (snd (checkGameEnd r s))"
  by (simp add: checkGameEnd_def Let_def split: option.splits)

lemma untracked_endDrawingPhase: "untracked s \<Longrightarrow> untracked (endDrawingPhase s)"
proof (cases "room s")
  case None
  then show ?thesis by (simp add: endDrawingPhase_def untracked_def)
next
  case (Some r)
  assume "untracked s"
  then have d: "drawnUserIds r = []" using Some by (rule untracked_Some)
  from endDrawingPhase_room[OF Some] obtain st where
    "room (endDrawingPhase s) = Some (r\<lparr>roundPhase := Some reveal, status := st\<rparr>)" by blast
  then show ?thesis using d by (simp add: untracked_def)
qed

lemma untracked_drawingTick: "untracked s \<Longrightarrow> untracked (drawingTick s)"
  by (auto simp: drawingTick_def untracked_endDrawingPhase untracked_Some split: option.splits)

lemma untracked_startIntervalPhase: "untracked s \<Longrightarrow> untracked (startIntervalPhase s)"
  by (auto simp: startIntervalPhase_def untracked_Some split: option.splits)

lemma untracked_startDrawingPhase [simp]:
  "untracked (startDrawingPhase r s) = (drawnUserIds r = [])"
  by (simp add: startDrawingPhase_def Let_def)

lemma untracked_awardGuess [simp]: "untracked (awardGuess r p s) = untracked s"
  by (simp add: untracked_def)

lemma untracked_reduceTime:
  "untracked s \<Longrightarrow> drawnUserIds r = [] \<Longrightarrow>
   untracked (snd (reduceTime r s)) \<and> drawnUserIds (fst (reduceTime r s)) = []"
  by (simp add: reduceTime_def Let_def)

lemma untracked_correctGuess:
  "untracked s \<Longrightarrow> drawnUserIds r = [] \<Longrightarrow> untracked (correctGuess r p u s)"
proof -
  assume u: "untracked s" and d: "drawnUserIds r = []"
  obtain r1 s2 where rt: "reduceTime r (awardGuess r p s) = (r1, s2)"
    by (cases "reduceTime r (awardGuess r p s)")
  have "untracked (awardGuess r p s)" using u by simp
  from untracked_reduceTime[OF this d] rt have s2: "untracked s2" by simp
  then show ?thesis
    by (simp add: correctGuess_def Let_def rt untracked_endDrawingPhase)
qed

lemma untracked_submit_guess: "untracked s \<Longrightarrow> untracked (submit_guess u g s)"
proof (cases "checkGuess s u")
  case (Inl m)
  assume "untracked s"
  then show ?thesis by (simp add: submit_guess_def Inl)
next
  case (Inr rp)
  assume u: "untracked s"
  obtain r p where rp: "rp = (r, p)" by (cases rp)
  have "room s = Some r" using Inr rp checkGuess_InrD(1) by simp
  then have "drawnUserIds r = []" using u untracked_Some by simp
  then show ?thesis using u
    by (simp add: submit_guess_def Inr rp untracked_correctGuess incorrectGuess_def)
qed

lemma untracked_deleteRoom [simp]: "untracked (deleteRoom s)"
  by (simp add: deleteRoom_def untracked_def)

lemma untracked_checkAndMaybeDeleteRoom:
  "untracked s \<Longrightarrow> untracked (checkAndMaybeDeleteRoom s)"
  by (simp add: checkAndMaybeDeleteRoom_def Let_def split: option.splits)

lemma untracked_handleDrawerLeave:
  "untracked s \<Longrightarrow> drawnUserIds r = [] \<Longrightarrow> untracked (snd (handleDrawerLeave r u s))"
  by (simp add: handleDrawerLeave_def Let_def untracked_checkAndMaybeDeleteRoom)

lemma untracked_handleOwnerLeave: "untracked s \<Longrightarrow> untracked (snd (handleOwnerLeave r u s))"
  by (simp add: handleOwnerLeave_def)

lemma untracked_checkAndCloseEmptyRoom:
  "untracked s \<Longrightarrow> untracked (snd (checkAndCloseEmptyRoom s))"
  by (auto simp: checkAndCloseEmptyRoom_def Let_def untracked_Some split: option.splits)

lemma untracked_deactivate [simp]: "untracked (deactivate u s) = untracked s"
  by (simp add: deactivate_def)

lemma untracked_leave_room: "untracked s \<Longrightarrow> untracked (leave_room u s)"
  by (auto simp: leave_room_def Let_def untracked_checkAndCloseEmptyRoom untracked_handleOwnerLeave
        untracked_handleDrawerLeave untracked_Some split: option.splits)

lemma untracked_disconnect: "untracked s \<Longrightarrow> untracked (disconnect u s)"
  by (auto simp: disconnect_def untracked_checkAndCloseEmptyRoom split: option.splits)

lemma untracked_join_room: "untracked s \<Longrightarrow> untracked (join_room u sock s)"
  by (auto simp: join_room_def Let_def untracked_def split: option.splits)

lemma untracked_deductEntry: "untracked s \<Longrightarrow> untracked (snd (deductEntry c ps s))"
proof (induction ps arbitrary: s)
  case Nil
  then show ?case by simp
next
  case (Cons p ps)
  have "untracked (updateWhere (\<lambda>q. pid q = pid p) (\<lambda>q. q\<lparr>hasPaidEntry := True\<rparr>)
          (s\<lparr>coins := c1, ledger := l1\<rparr>))" for c1 l1
    using Cons.prems by (simp add: untracked_def)
  then show ?case using Cons by (auto split: option.splits)
qed

lemma untracked_start_game: "untracked s \<Longrightarrow> untracked (start_game u themed fb s)"
proof (cases "room s")
  case None
  assume "untracked s"
  then show ?thesis by (simp add: start_game_def None)
next
  case (Some r)
  assume u: "untracked s"
  let ?ps = "filter isActive (participants s)"
  let ?c = "calculateEntryCost (entryPoints r) (voiceEnabled r)"
  obtain ok s1 where de: "deductEntry ?c ?ps s = (ok, s1)" by (cases "deductEntry ?c ?ps s")
  have s1: "untracked s1" using untracked_deductEntry[OF u, of ?c ?ps] de by simp
  show ?thesis using u s1
    by (cases ok) (simp_all add: start_game_def Some Let_def de untracked_startNewRound)
qed

lemma untracked_choose_word: "untracked s \<Longrightarrow> untracked (choose_word u w s)"
  by (auto simp: choose_word_def Let_def untracked_Some split: option.splits)

lemma untracked_skip_turn: "untracked s \<Longrightarrow> untracked (skip_turn themed fb s)"
proof (cases "room s")
  case None
  assume "untracked s"
  then show ?thesis by (simp add: skip_turn_def None)
next
  case (Some r)
  assume u: "untracked s"
  then have "drawnUserIds r = []" using Some by (rule untracked_Some)
  then show ?thesis using u by (simp add: skip_turn_def Some Let_def untracked_select)
qed

lemma untracked_select_team: "untracked s \<Longrightarrow> untracked (select_team u t s)"
  by (simp add: select_team_def split: option.splits)

lemma untracked_endGameTimer: "untracked s \<Longrightarrow> untracked (endGameTimer s)"
  by (auto simp: endGameTimer_def untracked_Some split: option.splits)

lemma untracked_httpSettings: "untracked s \<Longrightarrow> untracked (httpSettings cfg s)"
  by (auto simp: httpSettings_def untracked_Some split: option.splits)

lemma untracked_httpJoin: "untracked s \<Longrightarrow> untracked (httpJoin u t s)"
  by (auto simp: httpJoin_def untracked_def split: option.splits)

lemma untracked_httpLeave: "untracked s \<Longrightarrow> untracked (httpLeave u s)"
  by (auto simp: httpLeave_def Let_def untracked_Some split: option.splits)

lemma untracked_step: "untracked s \<Longrightarrow> untracked (step a s)"
  by (cases a)
     (simp_all add: untracked_join_room untracked_leave_room untracked_disconnect
        untracked_select_team untracked_start_game untracked_choose_word untracked_submit_guess
        untracked_skip_turn untracked_phaseTick untracked_drawingTick untracked_startIntervalPhase
        untracked_endGameTimer untracked_httpSettings untracked_httpJoin untracked_httpLeave)

text \<open>
  From a room with nobody in \<^verbatim>\<open>drawnUserIds\<close>, the state of every new room, the list stays
  empty whatever happens: no selection writes it, and the reset, which would, needs the
  whole alternating list to be in it.
\<close>

lemma untracked_run: "untracked s \<Longrightarrow> untracked (run acts s)"
  unfolding run_def by (induction acts arbitrary: s) (simp_all add: untracked_step)

section \<open>Flat rotation\<close>

lemma insort_key_map_keep:
  "(\<And>x. f (g x) = f x) \<Longrightarrow> insort_key f (g x) (map g ys) = map g (insort_key f x ys)"
  by (induction ys) auto

lemma sort_key_map_keep:
  "(\<And>x. f (g x) = f x) \<Longrightarrow> sort_key f (map g xs) = map g (sort_key f xs)"
  by (induction xs) (auto simp: insort_key_map_keep)

lemma activeSorted_map:
  assumes "participants s1 = map g (participants s)"
    and "\<And>q. userId (g q) = userId q" and "\<And>q. isActive (g q) = isActive q"
  shows "map userId (activeSorted s1) = map userId (activeSorted s)"
proof -
  have "filter isActive (map g (participants s)) = map g (filter isActive (participants s))"
    by (rule filter_map_keep) (rule assms(3))
  then have "activeSorted s1 = map g (activeSorted s)"
    by (simp add: activeSorted_def assms(1) sort_key_map_keep[of userId g, OF assms(2)])
  then show ?thesis by (simp add: assms(2))
qed

lemma select_flat:
  assumes rs: "room s = Some r" and m: "gameMode r = ''1v1''" and ne: "activeSorted s \<noteq> []"
  shows "\<exists>r1. room (selectDrawerAndStartWordChoice themed fb s) = Some r1 \<and> gameMode r1 = ''1v1'' \<and>
           drawerPointerIndex r1 = (drawerPointerIndex r + 1) mod length (activeSorted s) \<and>
           currentDrawerId r1 =
             Some (userId (activeSorted s ! (drawerPointerIndex r mod length (activeSorted s))))"
    and "map userId (activeSorted (selectDrawerAndStartWordChoice themed fb s)) = map userId (activeSorted s)"
proof -
  let ?ps = "activeSorted s"
  let ?n = "length ?ps"
  let ?p = "drawerPointerIndex r"
  let ?d = "?ps ! (?p mod ?n)"
  let ?g = "\<lambda>q. (if pid (if isDrawer q then q\<lparr>isDrawer := False\<rparr> else q) = pid ?d
                  then (if isDrawer q then q\<lparr>isDrawer := False\<rparr> else q)\<lparr>isDrawer := True, hasDrawn := True\<rparr>
                  else (if isDrawer q then q\<lparr>isDrawer := False\<rparr> else q))"
  have n0: "0 < ?n" using ne by simp
  then have lt: "?p mod ?n < ?n" by simp
  have ch: "chooseDrawer r ?ps = (Some ?d, (?p mod ?n + 1) mod ?n, RowArray (drawnUserIds r))"
    using lt by (simp add: chooseDrawer_def m flatRotation_def nthOpt_def Let_def)
  have pm: "(?p mod ?n + 1) mod ?n = (?p + 1) mod ?n" by (simp add: mod_Suc_eq)
  show "\<exists>r1. room (selectDrawerAndStartWordChoice themed fb s) = Some r1 \<and> gameMode r1 = ''1v1'' \<and>
           drawerPointerIndex r1 = (?p + 1) mod ?n \<and> currentDrawerId r1 = Some (userId ?d)"
    using ch ne pm
    by (simp add: selectDrawerAndStartWordChoice_def rs Let_def m
          startPhaseTimerAndBroadcast_def)
  have "participants (selectDrawerAndStartWordChoice themed fb s) = map ?g (participants s)"
    using ch ne
    by (simp add: selectDrawerAndStartWordChoice_def rs Let_def
          startPhaseTimerAndBroadcast_def)
  then show "map userId (activeSorted (selectDrawerAndStartWordChoice themed fb s)) = map userId ?ps"
    by (rule activeSorted_map) simp_all
qed

lemma drawersOf_flat:
  assumes "room s = Some r" and "gameMode r = ''1v1''" and "activeSorted s \<noteq> []"
  shows "drawersOf ws s =
           map (\<lambda>i. Some (map userId (activeSorted s) ! ((drawerPointerIndex r + i) mod length (activeSorted s))))
             [0..<length ws]"
  using assms
proof (induction ws arbitrary: s r)
  case Nil
  then show ?case by simp
next
  case (Cons w ws)
  let ?s1 = "selectDrawerAndStartWordChoice (fst w) (snd w) s"
  let ?n = "length (activeSorted s)"
  let ?p = "drawerPointerIndex r"
  let ?U = "map userId (activeSorted s)"
  obtain r1 where r1: "room ?s1 = Some r1" "gameMode r1 = ''1v1''"
    "drawerPointerIndex r1 = (?p + 1) mod ?n"
    "currentDrawerId r1 = Some (userId (activeSorted s ! (?p mod ?n)))"
    using select_flat(1)[OF Cons.prems, of "fst w" "snd w"] by blast
  have U: "map userId (activeSorted ?s1) = ?U"
    by (rule select_flat(2)[OF Cons.prems])
  then have len: "length (activeSorted ?s1) = ?n" by (metis length_map)
  then have ne1: "activeSorted ?s1 \<noteq> []" using Cons.prems(3) by auto
  have n0: "0 < ?n" using Cons.prems(3) by simp
  have ih: "drawersOf ws ?s1 = map (\<lambda>i. Some (?U ! (((?p + 1) mod ?n + i) mod ?n))) [0..<length ws]"
    using Cons.IH[OF r1(1) r1(2) ne1] by (simp only: U len r1(3))
  have sh: "((?p + 1) mod ?n + i) mod ?n = (?p + Suc i) mod ?n" for i
    by (simp add: mod_add_left_eq)
  have hd: "userId (activeSorted s ! (?p mod ?n)) = ?U ! ((?p + 0) mod ?n)"
    using n0 by simp
  have ih': "drawersOf ws ?s1 = map (\<lambda>i. Some (?U ! ((?p + Suc i) mod ?n))) [0..<length ws]"
    using ih by (simp only: sh)
  have "drawersOf (w # ws) s = currentDrawerId r1 # drawersOf ws ?s1"
    using r1(1) by (simp add: Let_def)
  also have "\<dots> = Some (?U ! ((?p + 0) mod ?n)) # map (\<lambda>i. Some (?U ! ((?p + Suc i) mod ?n))) [0..<length ws]"
    by (simp only: r1(4) hd ih')
  also have "\<dots> = map (\<lambda>i. Some (?U ! ((?p + i) mod ?n))) (0 # map Suc [0..<length ws])"
    by (simp add: comp_def del: nth_map)
  also have "0 # map Suc [0..<length ws] = [0..<length (w # ws)]"
    by (simp add: map_Suc_upt upt_conv_Cons del: upt_Suc)
  finally show ?case .
qed

lemma map_nth_rotate:
  assumes "xs \<noteq> []"
  shows "map (\<lambda>i. xs ! ((p + i) mod length xs)) [0..<length xs] = rotate (p mod length xs) xs"
proof (rule nth_equalityI)
  show "length (map (\<lambda>i. xs ! ((p + i) mod length xs)) [0..<length xs]) = length (rotate (p mod length xs) xs)"
    by simp
next
  fix i assume "i < length (map (\<lambda>i. xs ! ((p + i) mod length xs)) [0..<length xs])"
  then have i: "i < length xs" by simp
  then show "map (\<lambda>i. xs ! ((p + i) mod length xs)) [0..<length xs] ! i = rotate (p mod length xs) xs ! i"
    by (simp add: nth_rotate mod_add_left_eq)
qed

lemma mset_rotate_eq: "mset (rotate k xs) = mset xs"
proof -
  let ?j = "k mod length xs"
  have "mset (rotate k xs) = mset (drop ?j xs) + mset (take ?j xs)"
    by (simp only: rotate_drop_take mset_append)
  also have "\<dots> = mset (take ?j xs) + mset (drop ?j xs)"
    by (rule add.commute)
  also have "\<dots> = mset (take ?j xs @ drop ?j xs)"
    by (simp only: mset_append)
  also have "\<dots> = mset xs"
    by (simp only: append_take_drop_id)
  finally show ?thesis .
qed

text \<open>
  C4. In a room of mode 1v1 with active participants, sorted ascending by \<^verbatim>\<open>userId\<close> into
  \<open>sorted\<close> of length \<open>n\<close>, and the pointer \<open>p\<close>: the rotation picks
  \<open>sorted ! (p mod n)\<close> and leaves the pointer \<open>(p + 1) mod n\<close>, which is what the
  selection writes to the room as drawer and as pointer; and \<open>n\<close> selections in a row,
  whatever words each of them draws, choose the users of \<open>sorted\<close> in order, starting at
  \<open>p mod n\<close> and wrapping around: every active participant once.
\<close>

theorem flat_rotation_visits_everyone:
  assumes "room s = Some r" and "gameMode r = ''1v1''" and "activeSorted s \<noteq> []"
  shows "let srt = activeSorted s; n = length srt; p = drawerPointerIndex r
         in sorted (map userId srt) \<and> mset srt = mset (filter isActive (participants s)) \<and>
            chooseDrawer r srt = (Some (srt ! (p mod n)), (p + 1) mod n, RowArray (drawnUserIds r)) \<and>
            (\<forall>themed fb.
               map_option currentDrawerId (room (selectDrawerAndStartWordChoice themed fb s))
                 = Some (Some (userId (srt ! (p mod n)))) \<and>
               map_option drawerPointerIndex (room (selectDrawerAndStartWordChoice themed fb s))
                 = Some ((p + 1) mod n)) \<and>
            (\<forall>ws. length ws = n \<longrightarrow>
               drawersOf ws s = map Some (rotate (p mod n) (map userId srt)) \<and>
               mset (drawersOf ws s) =
                 mset (map (\<lambda>q. Some (userId q)) (filter isActive (participants s))))"
proof -
  let ?srt = "activeSorted s"
  let ?n = "length ?srt"
  let ?p = "drawerPointerIndex r"
  let ?U = "map userId ?srt"
  have n0: "0 < ?n" using assms(3) by simp
  have a: "sorted (map userId ?srt)" "mset ?srt = mset (filter isActive (participants s))"
    by (simp_all add: activeSorted_def)
  have b: "chooseDrawer r ?srt = (Some (?srt ! (?p mod ?n)), (?p + 1) mod ?n, RowArray (drawnUserIds r))"
    using n0 by (simp add: chooseDrawer_def assms(2) flatRotation_def nthOpt_def Let_def mod_Suc_eq)
  have c: "map_option currentDrawerId (room (selectDrawerAndStartWordChoice themed fb s))
                 = Some (Some (userId (?srt ! (?p mod ?n)))) \<and>
           map_option drawerPointerIndex (room (selectDrawerAndStartWordChoice themed fb s))
                 = Some ((?p + 1) mod ?n)" for themed fb
    using select_flat(1)[OF assms, of themed fb] by auto
  have d: "drawersOf ws s = map Some (rotate (?p mod ?n) ?U) \<and>
           mset (drawersOf ws s) = mset (map (\<lambda>q. Some (userId q)) (filter isActive (participants s)))"
    if "length ws = ?n" for ws
  proof -
    have U: "?U \<noteq> []" "length ?U = ?n" using assms(3) by simp_all
    have "drawersOf ws s = map (\<lambda>i. Some (?U ! ((?p + i) mod ?n))) [0..<?n]"
      using drawersOf_flat[OF assms, of ws] that by simp
    also have "\<dots> = map Some (map (\<lambda>i. ?U ! ((?p + i) mod ?n)) [0..<?n])"
      by (simp only: map_map comp_def)
    also have "map (\<lambda>i. ?U ! ((?p + i) mod ?n)) [0..<?n] = rotate (?p mod ?n) ?U"
      using map_nth_rotate[OF U(1), of ?p] by (simp only: length_map)
    finally have e: "drawersOf ws s = map Some (rotate (?p mod ?n) ?U)" .
    have "mset (drawersOf ws s) = image_mset Some (mset ?U)"
      by (simp only: e mset_map mset_rotate_eq)
    also have "\<dots> = image_mset Some (image_mset userId (mset (filter isActive (participants s))))"
      by (simp add: activeSorted_def)
    finally show ?thesis using e by (simp add: multiset.map_comp comp_def)
  qed
  show ?thesis
    unfolding Let_def using a b c d by blast
qed

theorem flat_rotation_visits_everyone_witness:
  "map userId (activeSorted ffaStore) = [1, 2, 3] \<and>
   drawersOf [([], fallback), ([], fallback), ([], fallback)] ffaStore = [Some 2, Some 3, Some 1]"
proof -
  have h: "room ffaStore = Some (drawingRoom ''1v1'')" "gameMode (drawingRoom ''1v1'') = ''1v1''"
    "activeSorted ffaStore \<noteq> []"
    by code_simp+
  have k: "length [([], fallback), ([], fallback), ([], fallback)] = length (activeSorted ffaStore)"
    "map userId (activeSorted ffaStore) = [1, 2, 3]"
    "drawerPointerIndex (drawingRoom ''1v1'') mod length (activeSorted ffaStore) = 1"
    "rotate 1 [1, 2, 3 :: nat] = [2, 3, 1]"
    by code_simp+
  have "drawersOf [([], fallback), ([], fallback), ([], fallback)] ffaStore =
          map Some (rotate (drawerPointerIndex (drawingRoom ''1v1'') mod length (activeSorted ffaStore))
            (map userId (activeSorted ffaStore)))"
    using flat_rotation_visits_everyone[OF h] k(1) unfolding Let_def by blast
  then show ?thesis by (simp only: k list.map simp_thms)
qed


section \<open>The drawer flag\<close>

lemma wf_emit [simp]: "wf (emit e s) = wf s"
  by (simp add: wf_def)

lemma wf_saveRoom [simp]: "wf (saveRoom r s) = wf s"
  by (simp add: wf_def)

lemma wf_coins [simp]: "wf (s\<lparr>coins := c, ledger := l\<rparr>) = wf s"
  by (simp add: wf_def)

lemma wf_drawerCount: "wf s \<Longrightarrow> drawerCount s \<le> 1"
  by (simp add: wf_def wfRows_def drawerCount_def countWhere_def)

lemma wfRows_map:
  fixes ps :: "participant list"
  assumes "wfRows n ps" and "\<And>q. pid (g q) = pid q" and "\<And>q. isDrawer (g q) \<Longrightarrow> isDrawer q"
  shows "wfRows n (map g ps)"
proof -
  have a: "map pid (map g ps) = map pid ps"
    by (induction ps) (auto simp: assms(2))
  have b: "list_all (\<lambda>p. pid p < n) (map g ps) = list_all (\<lambda>p. pid p < n) ps"
    by (induction ps) (auto simp: assms(2))
  have c: "length (filter isDrawer (map g ps)) \<le> length (filter isDrawer ps)"
    by (induction ps) (auto dest: assms(3))
  show ?thesis
    using assms(1) c unfolding wfRows_def a b by linarith
qed

lemma wf_updateWhere:
  assumes "wf s" and "\<And>q. pid (f q) = pid q" and "\<And>q. isDrawer (f q) \<Longrightarrow> isDrawer q"
  shows "wf (updateWhere P f s)"
  unfolding wf_def updateWhere_simps
  using assms by (intro wfRows_map) (auto simp: wf_def split: if_splits)

lemma distinct_pid_le1:
  fixes ps :: "participant list"
  shows "distinct (map pid ps) \<Longrightarrow> length (filter (\<lambda>p. pid p = i) ps) \<le> 1"
proof (induction ps)
  case Nil
  then show ?case by simp
next
  case (Cons x xs)
  show ?case
  proof (cases "pid x = i")
    case True
    then have "i \<notin> pid ` set xs" using Cons.prems by auto
    then have "filter (\<lambda>p. pid p = i) xs = []" by (auto simp: filter_empty_conv)
    then show ?thesis using True by simp
  next
    case False
    then show ?thesis using Cons by simp
  qed
qed

lemma markDrawer_simps [simp]:
  "pid (markDrawer i p) = pid p" "userId (markDrawer i p) = userId p"
  "isActive (markDrawer i p) = isActive p" "isDrawer (markDrawer i p) = (pid p = i)"
  by (auto simp: markDrawer_def)

lemma markDrawer_count:
  fixes ps :: "participant list"
  shows "length (filter isDrawer (map (markDrawer i) ps)) = length (filter (\<lambda>p. pid p = i) ps)"
  by (induction ps) auto

lemma wfRows_markDrawer:
  assumes "wfRows n ps"
  shows "wfRows n (map (markDrawer i) ps)"
proof -
  have a: "map pid (map (markDrawer i) ps) = map pid ps"
    by (induction ps) auto
  have b: "list_all (\<lambda>p. pid p < n) (map (markDrawer i) ps) = list_all (\<lambda>p. pid p < n) ps"
    by (induction ps) auto
  have c: "length (filter isDrawer (map (markDrawer i) ps)) \<le> 1"
    using assms by (simp only: markDrawer_count distinct_pid_le1 wfRows_def)
  show ?thesis
    using assms c unfolding wfRows_def a b by blast
qed

lemma wfRows_append:
  assumes "wfRows n ps" and "pid q = n" and "\<not> isDrawer q"
  shows "wfRows (Suc n) (ps @ [q])"
  using assms by (auto simp: wfRows_def list_all_iff less_Suc_eq)

lemma wfRows_Nil: "wfRows n []"
  by (simp add: wfRows_def)

lemma alternatingList_set: "set (alternatingList b c) \<subseteq> set b \<union> set c"
  by (auto simp: alternatingList_def split: if_splits)

lemma teamRotation_mem:
  assumes "teamRotation pointer drawn alt = (Some d, p, dr)" and "alt \<noteq> []"
  shows "d \<in> set alt"
proof (cases "List.find (\<lambda>i. userId (alt ! ((pointer + i) mod length alt)) \<notin> set drawn) [0..<length alt]")
  case None
  then have "nthOpt alt pointer = Some d"
    using assms(1) by (simp add: teamRotation_def Let_def)
  then show ?thesis by (auto simp: nthOpt_def split: if_splits)
next
  case (Some i)
  then have "d = alt ! ((pointer + i) mod length alt)"
    using assms(1) by (simp add: teamRotation_def Let_def)
  moreover have "(pointer + i) mod length alt < length alt" using assms(2) by simp
  ultimately show ?thesis by simp
qed

lemma flatRotation_mem:
  assumes "fst (flatRotation pointer ps) = Some d"
  shows "d \<in> set ps"
  using assms by (auto simp: flatRotation_def nthOpt_def Let_def split: if_splits)

lemma chooseDrawer_mem:
  assumes "chooseDrawer r ps = (Some d, p, dr)"
  shows "d \<in> set ps"
proof -
  let ?b = "sort_key userId (filter (\<lambda>p. team p = Some ''blue'') ps)"
  let ?o = "sort_key userId (filter (\<lambda>p. team p = Some ''orange'') ps)"
  consider (flat) "fst (flatRotation (drawerPointerIndex r) ps) = Some d"
    | (team) "?b \<noteq> []" "teamRotation (drawerPointerIndex r) (drawnUserIds r) (alternatingList ?b ?o) = (Some d, p, dr)"
    using assms by (auto simp: chooseDrawer_def Let_def split: if_splits)
  then show ?thesis
  proof cases
    case flat
    then show ?thesis by (rule flatRotation_mem)
  next
    case team
    have ne: "alternatingList ?b ?o \<noteq> []"
    proof -
      obtain x xs where "?b = x # xs" using team(1) by (cases ?b) auto
      then have "x \<in> set (alternatingList ?b ?o)"
        by (force simp: alternatingList_def)
      then show ?thesis by auto
    qed
    have "d \<in> set (alternatingList ?b ?o)" by (rule teamRotation_mem[OF team(2) ne])
    then have "d \<in> set ?b \<union> set ?o" using alternatingList_set by blast
    then show ?thesis by auto
  qed
qed

lemma select_cases:
  "selectDrawerAndStartWordChoice themed fb s = s \<or>
   (nextId (selectDrawerAndStartWordChoice themed fb s) = nextId s \<and>
    participants (selectDrawerAndStartWordChoice themed fb s) =
      map (\<lambda>p. if isDrawer p then p\<lparr>isDrawer := False\<rparr> else p) (participants s)) \<or>
   (\<exists>d r. d \<in> set (activeSorted s) \<and>
      nextId (selectDrawerAndStartWordChoice themed fb s) = nextId s \<and>
      room (selectDrawerAndStartWordChoice themed fb s) = Some r \<and>
      roundPhase r = Some selecting_drawer \<and> currentDrawerId r = Some (userId d) \<and>
      participants (selectDrawerAndStartWordChoice themed fb s) = map (markDrawer (pid d)) (participants s))"
proof (cases "room s")
  case None
  then show ?thesis by (simp add: selectDrawerAndStartWordChoice_def)
next
  case (Some r)
  show ?thesis
  proof (cases "activeSorted s = []")
    case True
    then show ?thesis using Some by (simp add: selectDrawerAndStartWordChoice_def)
  next
    case False
    obtain nd p dr where ch: "chooseDrawer r (activeSorted s) = (nd, p, dr)"
      by (cases "chooseDrawer r (activeSorted s)") auto
    show ?thesis
    proof (cases nd)
      case None
      then show ?thesis
        using Some False ch by (simp add: selectDrawerAndStartWordChoice_def Let_def)
    next
      case (Some d)
      then have "d \<in> set (activeSorted s)" using ch chooseDrawer_mem by blast
      moreover have "participants (selectDrawerAndStartWordChoice themed fb s) = map (markDrawer (pid d)) (participants s)"
        using \<open>room s = Some r\<close> False ch Some
        by (simp add: selectDrawerAndStartWordChoice_def Let_def startPhaseTimerAndBroadcast_def markDrawer_def)
      moreover have "nextId (selectDrawerAndStartWordChoice themed fb s) = nextId s"
        using \<open>room s = Some r\<close> False ch Some
        by (simp add: selectDrawerAndStartWordChoice_def Let_def startPhaseTimerAndBroadcast_def)
      moreover have "\<exists>r1. room (selectDrawerAndStartWordChoice themed fb s) = Some r1 \<and>
          roundPhase r1 = Some selecting_drawer \<and> currentDrawerId r1 = Some (userId d)"
        using \<open>room s = Some r\<close> False ch Some
        by (simp add: selectDrawerAndStartWordChoice_def Let_def startPhaseTimerAndBroadcast_def)
      ultimately show ?thesis by blast
    qed
  qed
qed

lemma wf_select: "wf s \<Longrightarrow> wf (selectDrawerAndStartWordChoice themed fb s)"
proof -
  assume w: "wf s"
  have c: "wfRows (nextId s) (map (\<lambda>p. if isDrawer p then p\<lparr>isDrawer := False\<rparr> else p) (participants s))"
    using w by (intro wfRows_map) (auto simp: wf_def split: if_splits)
  show ?thesis
    using select_cases[of themed fb s] w c wfRows_markDrawer[of "nextId s" "participants s"]
    by (auto simp: wf_def)
qed

lemma wf_cong: "participants s1 = participants s \<Longrightarrow> nextId s1 = nextId s \<Longrightarrow> wf s1 = wf s"
  by (simp add: wf_def)

lemma wf_startPhaseTimerAndBroadcast [simp]: "wf (startPhaseTimerAndBroadcast r ph s) = wf s"
  by (simp add: startPhaseTimerAndBroadcast_def Let_def)

lemma wf_startNewRound: "wf s \<Longrightarrow> wf (startNewRound themed fb s)"
  by (auto simp: startNewRound_def Let_def intro!: wf_select wf_updateWhere)

lemma wf_startWordChoicePhase [simp]: "wf (startWordChoicePhase r u w online s) = wf s"
  by (simp add: startWordChoicePhase_def)

lemma wf_drawerTimedOut: "wf s \<Longrightarrow> wf (drawerTimedOut r u themed fb s)"
  by (auto simp: drawerTimedOut_def Let_def intro!: wf_select wf_updateWhere)

lemma wf_onEndCallback: "wf s \<Longrightarrow> wf (onEndCallback cb r themed fb s)"
  by (cases cb) (auto intro!: wf_drawerTimedOut wf_startNewRound)

lemma wf_phaseTick: "wf s \<Longrightarrow> wf (phaseTick ph cb themed fb s)"
  by (auto simp: phaseTick_def intro!: wf_onEndCallback split: option.split)

lemma wf_startDrawingPhase [simp]: "wf (startDrawingPhase r s) = wf s"
  by (simp add: startDrawingPhase_def Let_def)

lemma wf_endGame [simp]: "wf (endGame r ps s) = wf s"
  by (rule wf_cong) simp_all

lemma nextId_checkGameEnd [simp]: "nextId (snd (checkGameEnd r s)) = nextId s"
  by (simp add: checkGameEnd_def Let_def split: option.split)

lemma wf_checkGameEnd [simp]: "wf (snd (checkGameEnd r s)) = wf s"
  by (rule wf_cong) simp_all

lemma wf_addScore: "wf s \<Longrightarrow> wf (updateWhere P (addScore n) s)"
  by (rule wf_updateWhere) simp_all

lemma wf_endDrawingPhase: "wf s \<Longrightarrow> wf (endDrawingPhase s)"
proof (cases "room s")
  case None
  then show "wf s \<Longrightarrow> wf (endDrawingPhase s)" by (simp add: endDrawingPhase_def)
next
  case (Some r)
  assume w: "wf s"
  let ?r1 = "r\<lparr>roundPhase := Some reveal\<rparr>"
  let ?n = "min (int (countWhere hasGuessedThisRound s) * 2) (maxPointsPerRound r)"
  define s1 where "s1 = (case findOne (\<lambda>p. Some (userId p) = currentDrawerId r) s of
                      None \<Rightarrow> s
                    | Some d \<Rightarrow>
                        if countWhere hasGuessedThisRound s > 0
                        then updateWhere (\<lambda>p. pid p = pid d) (addScore ?n) s
                        else s)"
  have "wf s1"
    unfolding s1_def using w by (simp add: wf_addScore split: option.split)
  moreover have "endDrawingPhase s =
      snd (checkGameEnd ?r1 (emit (PhaseChange reveal (PHASE_DURATIONS reveal)) (saveRoom ?r1 s1)))"
    unfolding s1_def using Some by (simp add: endDrawingPhase_def Let_def)
  ultimately show "wf (endDrawingPhase s)" by simp
qed

lemma wf_drawingTick: "wf s \<Longrightarrow> wf (drawingTick s)"
  by (auto simp: drawingTick_def intro!: wf_endDrawingPhase split: option.split)

lemma wf_startIntervalPhase [simp]: "wf (startIntervalPhase s) = wf s"
  by (simp add: startIntervalPhase_def split: option.split)

lemma wf_awardGuess: "wf s \<Longrightarrow> wf (awardGuess r p s)"
  by (auto simp: awardGuess_def Let_def intro!: wf_updateWhere)

lemma wf_reduceTime [simp]: "wf (snd (reduceTime r s)) = wf s"
  by (simp add: reduceTime_def Let_def)

lemma wf_correctGuess: "wf s \<Longrightarrow> wf (correctGuess r p u s)"
proof -
  assume w: "wf s"
  let ?s1 = "awardGuess r p s"
  let ?r1 = "fst (reduceTime r ?s1)"
  let ?s3 = "emit (CorrectGuess u (calculateGuessReward (roundRemainingTime r) (maxPointsPerRound r))
               (roundRemainingTime ?r1)) (snd (reduceTime r ?s1))"
  have w3: "wf ?s3" using w by (simp add: wf_awardGuess)
  have c: "correctGuess r p u s = (if guessedCount ?s3 \<ge> eligibleCount ?r1 p ?s3 then endDrawingPhase ?s3 else ?s3)"
    by (simp add: correctGuess_def Let_def split: prod.split)
  show ?thesis
    unfolding c using w3 wf_endDrawingPhase[OF w3] by (simp only: if_split simp_thms)
qed

lemma wf_submit_guess: "wf s \<Longrightarrow> wf (submit_guess u g s)"
proof (cases "checkGuess s u")
  case (Inl m)
  then show "wf s \<Longrightarrow> wf (submit_guess u g s)" by (simp add: submit_guess_def)
next
  case (Inr rp)
  obtain r p where "rp = (r, p)" by (cases rp)
  then show "wf s \<Longrightarrow> wf (submit_guess u g s)"
    using Inr by (simp add: submit_guess_def incorrectGuess_def wf_correctGuess)
qed

lemma wf_deleteRoom [simp]: "wf (deleteRoom s)"
  by (simp add: deleteRoom_def wf_def wfRows_Nil)

lemma wf_checkAndMaybeDeleteRoom: "wf s \<Longrightarrow> wf (checkAndMaybeDeleteRoom s)"
  by (simp add: checkAndMaybeDeleteRoom_def Let_def split: option.split)

lemma wf_handleDrawerLeave: "wf s \<Longrightarrow> wf (snd (handleDrawerLeave r u s))"
  by (simp add: handleDrawerLeave_def Let_def wf_checkAndMaybeDeleteRoom)

lemma wf_handleOwnerLeave: "wf s \<Longrightarrow> wf (snd (handleOwnerLeave r u s))"
  by (simp add: handleOwnerLeave_def)

lemma wf_checkAndCloseEmptyRoom: "wf s \<Longrightarrow> wf (snd (checkAndCloseEmptyRoom s))"
  by (simp add: checkAndCloseEmptyRoom_def Let_def split: option.split)

lemma wf_deactivate: "wf s \<Longrightarrow> wf (deactivate u s)"
  unfolding deactivate_def by (rule wf_updateWhere) simp_all

lemma wf_leave_room: "wf s \<Longrightarrow> wf (leave_room u s)"
  by (auto simp: leave_room_def Let_def
      intro!: wf_checkAndCloseEmptyRoom wf_handleOwnerLeave wf_handleDrawerLeave wf_deactivate
      split: option.split)

lemma wf_disconnect: "wf s \<Longrightarrow> wf (disconnect u s)"
  by (auto simp: disconnect_def intro!: wf_checkAndCloseEmptyRoom wf_deactivate split: option.split)

lemma wf_newRow:
  assumes "wf s" and "pid q = nextId s" and "\<not> isDrawer q"
  shows "wf (s\<lparr>participants := participants s @ [q], nextId := nextId s + 1\<rparr>)"
  using wfRows_append[of "nextId s" "participants s" q] assms by (simp add: wf_def)

lemma wf_join_room: "wf s \<Longrightarrow> wf (join_room u sock s)"
proof (cases "room s")
  case None
  then show "wf s \<Longrightarrow> wf (join_room u sock s)" by (simp add: join_room_def)
next
  case (Some r)
  assume w: "wf s"
  define s1 where "s1 = (if status r = inactive
                         then saveRoom (r\<lparr>status := (if isPublic r then waiting else lobby)\<rparr>) s
                         else s)"
  have w1: "wf s1" and p1: "participants s1 = participants s" and n1: "nextId s1 = nextId s"
    using w by (simp_all add: s1_def)
  have a: "wf (updateWhere (\<lambda>q. userId q = x) (\<lambda>q. q\<lparr>socketId := Some sock, isActive := True\<rparr>) s1)" for x
    using w1 by (rule wf_updateWhere) simp_all
  have b: "wf (s1\<lparr>participants := participants s1 @ [newParticipant (nextId s1) x sock],
                 nextId := nextId s1 + 1\<rparr>)" for x
    using w1 by (rule wf_newRow) (simp_all add: newParticipant_def)
  show "wf (join_room u sock s)"
    using w w1 a b Some
    by (auto simp: join_room_def Let_def s1_def[symmetric] split: option.split
             simp del: updateWhere_simps)
qed

lemma wf_deductEntry: "wf s \<Longrightarrow> wf (snd (deductEntry c ps s))"
proof (induction ps arbitrary: s)
  case Nil
  then show ?case by simp
next
  case (Cons p ps)
  have "wf (updateWhere (\<lambda>q. pid q = pid p) (\<lambda>q. q\<lparr>hasPaidEntry := True\<rparr>)
             (s\<lparr>coins := cs, ledger := l\<rparr>))" for cs l
    using Cons.prems by (intro wf_updateWhere) simp_all
  then show ?case
    using Cons by (auto split: option.split)
qed

lemma wf_start_game: "wf s \<Longrightarrow> wf (start_game u themed fb s)"
proof -
  assume w: "wf s"
  have "wf (snd (deductEntry c ps s))" for c ps using w by (rule wf_deductEntry)
  then have "wf t" if "deductEntry c ps s = (b, t)" for c ps b t
    using that by (metis snd_conv)
  then show ?thesis
    using w
    by (auto simp: start_game_def Let_def intro!: wf_startNewRound split: option.split prod.split bool.split)
qed

lemma wf_choose_word: "wf s \<Longrightarrow> wf (choose_word u w s)"
  by (simp add: choose_word_def Let_def split: option.split)

lemma wf_skip_turn: "wf s \<Longrightarrow> wf (skip_turn themed fb s)"
  by (auto simp: skip_turn_def Let_def intro!: wf_select wf_updateWhere split: option.split)

lemma wf_select_team: "wf s \<Longrightarrow> wf (select_team u t s)"
  by (auto simp: select_team_def intro!: wf_updateWhere split: option.split)

lemma wf_endGameTimer: "wf s \<Longrightarrow> wf (endGameTimer s)"
  by (simp add: endGameTimer_def split: option.split)

lemma wf_httpSettings: "wf s \<Longrightarrow> wf (httpSettings cfg s)"
  by (simp add: httpSettings_def split: option.split)

lemma wf_httpJoin: "wf s \<Longrightarrow> wf (httpJoin u t s)"
proof -
  assume w: "wf s"
  have "wf (s\<lparr>participants := participants s @ [(newParticipant (nextId s) u [])\<lparr>team := t,
                  hasPaidEntry := True, socketId := None\<rparr>], nextId := nextId s + 1\<rparr>)"
    using w by (rule wf_newRow) (simp_all add: newParticipant_def)
  then show ?thesis
    using w by (auto simp: httpJoin_def intro!: wf_updateWhere split: option.split)
qed

lemma wf_httpLeave: "wf s \<Longrightarrow> wf (httpLeave u s)"
proof -
  assume w: "wf s"
  have "wf (updateWhere (\<lambda>q. pid q = i) (\<lambda>q. q\<lparr>isActive := False\<rparr>) s)" for i
    using w by (rule wf_updateWhere) simp_all
  then show ?thesis
    using w by (auto simp: httpLeave_def Let_def split: option.split simp del: updateWhere_simps)
qed

lemma wf_step: "wf s \<Longrightarrow> wf (step a s)"
  by (cases a)
     (simp_all add: wf_join_room wf_leave_room wf_disconnect wf_select_team wf_start_game
        wf_choose_word wf_submit_guess wf_skip_turn wf_phaseTick wf_drawingTick wf_endGameTimer
        wf_httpSettings wf_httpJoin wf_httpLeave)

lemma wf_run: "wf s \<Longrightarrow> wf (run acts s)"
  unfolding run_def by (induction acts arbitrary: s) (simp_all add: wf_step)

lemma flags_updateWhere:
  "(\<And>q. isDrawer (f q) = isDrawer q) \<Longrightarrow>
   map isDrawer (participants (updateWhere P f s)) = map isDrawer (participants s)"
  by (simp add: comp_def if_distrib[of isDrawer])

lemma flags_endDrawingPhase:
  "map isDrawer (participants (endDrawingPhase s)) = map isDrawer (participants s)"
proof (cases "room s")
  case None
  then show ?thesis by (simp add: endDrawingPhase_def)
next
  case (Some r)
  from endDrawingPhase_participants[OF Some] show ?thesis
    by (auto simp: comp_def)
qed

lemma flags_awardGuess:
  "map isDrawer (participants (awardGuess r p s)) = map isDrawer (participants s)"
  by (simp add: awardGuess_participants comp_def)

lemma flags_correctGuess:
  "map isDrawer (participants (correctGuess r p u s)) = map isDrawer (participants s)"
proof -
  let ?s1 = "awardGuess r p s"
  let ?r1 = "fst (reduceTime r ?s1)"
  let ?s3 = "emit (CorrectGuess u (calculateGuessReward (roundRemainingTime r) (maxPointsPerRound r))
               (roundRemainingTime ?r1)) (snd (reduceTime r ?s1))"
  have f3: "map isDrawer (participants ?s3) = map isDrawer (participants s)"
    using flags_awardGuess[of r p s] by simp
  have c: "correctGuess r p u s = (if guessedCount ?s3 \<ge> eligibleCount ?r1 p ?s3 then endDrawingPhase ?s3 else ?s3)"
    by (simp add: correctGuess_def Let_def split: prod.split)
  show ?thesis
  proof (cases "guessedCount ?s3 \<ge> eligibleCount ?r1 p ?s3")
    case True
    then have "correctGuess r p u s = endDrawingPhase ?s3" using c by (simp only: if_True)
    then show ?thesis by (simp only: flags_endDrawingPhase f3)
  next
    case False
    then have "correctGuess r p u s = ?s3" using c by (simp only: if_False)
    then show ?thesis by (simp only: f3)
  qed
qed

lemma flags_submit_guess:
  "map isDrawer (participants (submit_guess u g s)) = map isDrawer (participants s)"
proof (cases "checkGuess s u")
  case (Inl m)
  then show ?thesis by (simp add: submit_guess_def)
next
  case (Inr rp)
  obtain r p where "rp = (r, p)" by (cases rp)
  then show ?thesis
    using Inr flags_correctGuess[of r p "userId p" s] by (simp add: submit_guess_def incorrectGuess_def)
qed

lemma flags_choose_word:
  "map isDrawer (participants (choose_word u w s)) = map isDrawer (participants s)"
  by (simp add: choose_word_def startDrawingPhase_def Let_def split: option.split)

lemma flags_drawingTick:
  "map isDrawer (participants (drawingTick s)) = map isDrawer (participants s)"
  by (simp add: drawingTick_def flags_endDrawingPhase split: option.split)

lemma flags_startIntervalPhase:
  "map isDrawer (participants (startIntervalPhase s)) = map isDrawer (participants s)"
  by (simp add: startIntervalPhase_def startPhaseTimerAndBroadcast_def Let_def split: option.split)

lemma flags_previewTick:
  "map isDrawer (participants (phaseTick ph (ToWordChoice d ws on) themed fb s)) =
   map isDrawer (participants s)"
  by (simp add: phaseTick_def startWordChoicePhase_def startPhaseTimerAndBroadcast_def Let_def
        split: option.split)

lemma flags_endGameTimer:
  "map isDrawer (participants (endGameTimer s)) = map isDrawer (participants s)"
  by (simp add: endGameTimer_def split: option.split)

lemma flags_deactivate:
  "map isDrawer (participants (deactivate u s)) = map isDrawer (participants s)"
  unfolding deactivate_def by (rule flags_updateWhere) simp

lemma participants_checkAndCloseEmptyRoom [simp]:
  "participants (snd (checkAndCloseEmptyRoom s)) = participants s"
  by (simp add: checkAndCloseEmptyRoom_def Let_def split: option.split)

lemma participants_checkAndMaybeDeleteRoom:
  "participants (checkAndMaybeDeleteRoom s) = [] \<or>
   participants (checkAndMaybeDeleteRoom s) = participants s"
  by (simp add: checkAndMaybeDeleteRoom_def deleteRoom_def Let_def split: option.split)

lemma participants_handleDrawerLeave:
  "participants (snd (handleDrawerLeave r u s)) = [] \<or>
   participants (snd (handleDrawerLeave r u s)) = participants s"
  using participants_checkAndMaybeDeleteRoom[of
      "startPhaseTimerAndBroadcast
         (r\<lparr>currentDrawerId := None, currentWord := None, currentWordOptions := JNull\<rparr>) interval
         (saveRoom (r\<lparr>currentDrawerId := None, currentWord := None, currentWordOptions := JNull\<rparr>) s)"]
  by (auto simp: handleDrawerLeave_def Let_def startPhaseTimerAndBroadcast_def)

lemma flags_leave_room:
  "participants (leave_room u s) = [] \<or>
   map isDrawer (participants (leave_room u s)) = map isDrawer (participants s)"
proof (cases "room s")
  case None
  then show ?thesis by (simp add: leave_room_def)
next
  case (Some r)
  show ?thesis
  proof (cases u)
    case None
    then show ?thesis using Some by (simp add: leave_room_def)
  next
    case (Some user)
    let ?s1 = "deactivate user s"
    have f1: "map isDrawer (participants ?s1) = map isDrawer (participants s)"
      by (rule flags_deactivate)
    consider (owner) "ownerId r = user" | (play) "ownerId r \<noteq> user" "status r = playing"
      | (other) "ownerId r \<noteq> user" "status r \<noteq> playing" by blast
    then show ?thesis
    proof cases
      case owner
      then have "participants (leave_room u s) = []"
        using \<open>room s = Some r\<close> Some
        by (simp add: leave_room_def Let_def handleOwnerLeave_def deleteRoom_def)
      then show ?thesis by simp
    next
      case play
      then have "participants (leave_room u s) = participants (snd (handleDrawerLeave r user ?s1))"
        using \<open>room s = Some r\<close> Some by (simp add: leave_room_def Let_def)
      then show ?thesis
        using participants_handleDrawerLeave[of r user ?s1] f1 by auto
    next
      case other
      then have "participants (leave_room u s) = participants ?s1"
        using \<open>room s = Some r\<close> Some by (simp add: leave_room_def Let_def)
      then show ?thesis using f1 by simp
    qed
  qed
qed

lemma select_Some:
  assumes "room s = Some r" and "activeSorted s \<noteq> []"
    and "chooseDrawer r (activeSorted s) = (Some d, p, dr)"
  shows "participants (selectDrawerAndStartWordChoice themed fb s) = map (markDrawer (pid d)) (participants s)"
    and "map_option roundPhase (room (selectDrawerAndStartWordChoice themed fb s)) = Some (Some selecting_drawer)"
  using assms
  by (simp_all add: selectDrawerAndStartWordChoice_def Let_def startPhaseTimerAndBroadcast_def markDrawer_def)

lemma select_exactly_one:
  assumes "wf s" and "room s = Some r" and "activeSorted s \<noteq> []"
    and "fst (chooseDrawer r (activeSorted s)) \<noteq> None"
  shows "drawerCount (selectDrawerAndStartWordChoice themed fb s) = 1"
    and "map_option roundPhase (room (selectDrawerAndStartWordChoice themed fb s)) = Some (Some selecting_drawer)"
proof -
  obtain d p dr where ch: "chooseDrawer r (activeSorted s) = (Some d, p, dr)"
    using assms(4) by (cases "chooseDrawer r (activeSorted s)") auto
  have "d \<in> set (activeSorted s)" using ch by (rule chooseDrawer_mem)
  then have "d \<in> set (participants s)" by (simp add: activeSorted_def)
  then have "filter (\<lambda>q. pid q = pid d) (participants s) \<noteq> []"
    by (auto simp: filter_empty_conv)
  then have "1 \<le> length (filter (\<lambda>q. pid q = pid d) (participants s))"
    by (simp add: Suc_le_eq)
  moreover have "distinct (map pid (participants s))"
    using assms(1) by (simp add: wf_def wfRows_def)
  then have "length (filter (\<lambda>q. pid q = pid d) (participants s)) \<le> 1"
    by (rule distinct_pid_le1)
  ultimately have "length (filter (\<lambda>q. pid q = pid d) (participants s)) = 1" by linarith
  then show "drawerCount (selectDrawerAndStartWordChoice themed fb s) = 1"
    by (simp only: drawerCount_def countWhere_def select_Some(1)[OF assms(2,3) ch] markDrawer_count)
  show "map_option roundPhase (room (selectDrawerAndStartWordChoice themed fb s)) = Some (Some selecting_drawer)"
    by (rule select_Some(2)[OF assms(2,3) ch])
qed

text \<open>What stops short of a selection.\<close>

lemma markDrawer_flags:
  fixes ps :: "participant list"
  shows "map isDrawer (map (markDrawer i) ps) = map (\<lambda>q. pid q = i) ps"
  by (induction ps) (auto simp: markDrawer_def)

lemma flags_startNewRound_few:
  "countWhere isActive s < 2 \<Longrightarrow>
   map isDrawer (participants (startNewRound themed fb s)) = map isDrawer (participants s)"
  by (simp add: startNewRound_def Let_def)

lemma select_nobody: "activeSorted s = [] \<Longrightarrow> selectDrawerAndStartWordChoice themed fb s = s"
  by (simp add: selectDrawerAndStartWordChoice_def Let_def split: option.splits)

lemma skip_turn_few:
  "room s \<noteq> None \<Longrightarrow> countWhere isActive s < 2 \<Longrightarrow> drawerCount (skip_turn themed fb s) = 0"
proof -
  assume r: "room s \<noteq> None" and few: "countWhere isActive s < 2"
  let ?s1 = "updateWhere (\<lambda>p. True) (\<lambda>p. p\<lparr>isDrawer := False\<rparr>) s"
  have "countWhere isActive ?s1 = countWhere isActive s"
    by (simp add: countWhere_def updateWhere_def filter_map comp_def)
  then have c: "countWhere isActive ?s1 < 2" using few by simp
  from r obtain r0 where r0: "room s = Some r0" by auto
  have "skip_turn themed fb s = emit (ErrorMsg ''not_enough_players'') ?s1"
    using c by (simp add: skip_turn_def r0 Let_def)
  then show ?thesis
    by (simp add: drawerCount_def countWhere_def updateWhere_def filter_empty_conv)
qed

text \<open>
  C2, as the code has it. From a store with well-formed rows, whatever happens (commands,
  timers, moves of the surroundings, in any order), at most one participant has the
  drawer flag. A selection that finds a drawer leaves the flag on that participant and on
  nobody else, and it does so in the phase \<^verbatim>\<open>selecting_drawer\<close>. The steps that lead from
  there to \<^verbatim>\<open>choosing_word\<close>, \<^verbatim>\<open>drawing\<close>, \<^verbatim>\<open>reveal\<close> and \<^verbatim>\<open>interval\<close> (the end of the
  preview, the choice of the word, a guess, the drawing ticker, the reveal timer) and the
  timer of the game's end change no participant's flag; nor does a participant's leaving,
  unless it deletes the room with its rows. A selection without active participants
  changes nothing, and the start of a round with fewer than two active participants
  keeps every flag; \<^verbatim>\<open>skip_turn\<close> with fewer than two active participants clears them all.
\<close>

theorem drawer_flag_invariant:
  "(wf s \<longrightarrow> drawerCount (run acts s) \<le> 1) \<and>
   (wf s \<and> room s = Some r \<and> activeSorted s \<noteq> [] \<and> fst (chooseDrawer r (activeSorted s)) = Some d \<longrightarrow>
      drawerCount (selectDrawerAndStartWordChoice themed fb s) = 1 \<and>
      map isDrawer (participants (selectDrawerAndStartWordChoice themed fb s))
        = map (\<lambda>q. pid q = pid d) (participants s) \<and>
      map_option roundPhase (room (selectDrawerAndStartWordChoice themed fb s))
        = Some (Some selecting_drawer)) \<and>
   (a \<in> {PhaseTick ph (ToWordChoice d' ws on) themed fb, ChooseWord u w, SubmitGuess u g,
          DrawingTick, RevealTimer, EndGameTimer} \<longrightarrow>
      map isDrawer (participants (step a s)) = map isDrawer (participants s)) \<and>
   (participants (step (LeaveRoom u) s) = [] \<or>
    map isDrawer (participants (step (LeaveRoom u) s)) = map isDrawer (participants s)) \<and>
   (activeSorted s = [] \<longrightarrow> selectDrawerAndStartWordChoice themed fb s = s) \<and>
   (countWhere isActive s < 2 \<longrightarrow>
      map isDrawer (participants (startNewRound themed fb s)) = map isDrawer (participants s)) \<and>
   (room s \<noteq> None \<and> countWhere isActive s < 2 \<longrightarrow> drawerCount (skip_turn themed fb s) = 0)"
proof (intro conjI impI)
  assume "wf s"
  then show "drawerCount (run acts s) \<le> 1" by (intro wf_drawerCount wf_run)
next
  assume h: "wf s \<and> room s = Some r \<and> activeSorted s \<noteq> [] \<and> fst (chooseDrawer r (activeSorted s)) = Some d"
  then have ne: "fst (chooseDrawer r (activeSorted s)) \<noteq> None" by simp
  from h ne show "drawerCount (selectDrawerAndStartWordChoice themed fb s) = 1"
    using select_exactly_one(1)[of s r themed fb] by blast
  from h ne show "map_option roundPhase (room (selectDrawerAndStartWordChoice themed fb s))
        = Some (Some selecting_drawer)"
    using select_exactly_one(2)[of s r themed fb] by blast
  from h obtain p dr where ch: "chooseDrawer r (activeSorted s) = (Some d, p, dr)"
    by (cases "chooseDrawer r (activeSorted s)") auto
  from h have "participants (selectDrawerAndStartWordChoice themed fb s)
      = map (markDrawer (pid d)) (participants s)"
    using select_Some(1)[OF _ _ ch, of themed fb] by blast
  then show "map isDrawer (participants (selectDrawerAndStartWordChoice themed fb s))
        = map (\<lambda>q. pid q = pid d) (participants s)"
    by (simp only: markDrawer_flags)
next
  assume "a \<in> {PhaseTick ph (ToWordChoice d' ws on) themed fb, ChooseWord u w, SubmitGuess u g,
          DrawingTick, RevealTimer, EndGameTimer}"
  then consider "a = PhaseTick ph (ToWordChoice d' ws on) themed fb" | "a = ChooseWord u w"
    | "a = SubmitGuess u g" | "a = DrawingTick" | "a = RevealTimer" | "a = EndGameTimer"
    by blast
  then show "map isDrawer (participants (step a s)) = map isDrawer (participants s)"
    by cases
       (simp_all only: step.simps flags_previewTick flags_choose_word flags_submit_guess
          flags_drawingTick flags_startIntervalPhase flags_endGameTimer)
next
  show "participants (step (LeaveRoom u) s) = [] \<or>
    map isDrawer (participants (step (LeaveRoom u) s)) = map isDrawer (participants s)"
    by (simp only: step.simps flags_leave_room)
next
  assume "activeSorted s = []"
  then show "selectDrawerAndStartWordChoice themed fb s = s" by (rule select_nobody)
next
  assume "countWhere isActive s < 2"
  then show "map isDrawer (participants (startNewRound themed fb s)) = map isDrawer (participants s)"
    by (rule flags_startNewRound_few)
next
  assume "room s \<noteq> None \<and> countWhere isActive s < 2"
  then show "drawerCount (skip_turn themed fb s) = 0" by (simp add: skip_turn_few)
qed

theorem drawer_flag_invariant_witness:
  "wf twoLobby \<and> drawerCount (run firstRound twoLobby) \<le> 1 \<and>
   drawerCount (selectDrawerAndStartWordChoice [] fallback twoLobby) = 1 \<and>
   map isDrawer (participants (selectDrawerAndStartWordChoice [] fallback twoLobby)) = [True, False] \<and>
   map isDrawer (participants (step RevealTimer (run firstRound twoLobby))) =
     map isDrawer (participants (run firstRound twoLobby)) \<and>
   activeSorted emptyStore = [] \<and>
   selectDrawerAndStartWordChoice [] fallback emptyStore = emptyStore \<and>
   countWhere isActive aloneStore < 2 \<and>
   map isDrawer (participants (startNewRound [] fallback aloneStore)) = [True, False] \<and>
   room aloneStore \<noteq> None \<and> drawerCount (skip_turn [] fallback aloneStore) = 0"
proof -
  have w: "wf twoLobby" unfolding wf_def wfRows_def by code_simp
  have h: "room twoLobby = Some (lobbyRoom ''1v1'') \<and> activeSorted twoLobby \<noteq> [] \<and>
           fst (chooseDrawer (lobbyRoom ''1v1'') (activeSorted twoLobby)) = Some (player 1 None)"
    by code_simp
  have a: "drawerCount (run firstRound twoLobby) \<le> 1"
    using drawer_flag_invariant[of twoLobby firstRound] w by blast
  have b: "drawerCount (selectDrawerAndStartWordChoice [] fallback twoLobby) = 1 \<and>
           map isDrawer (participants (selectDrawerAndStartWordChoice [] fallback twoLobby))
             = map (\<lambda>q. pid q = pid (player 1 None)) (participants twoLobby)"
    using drawer_flag_invariant[of twoLobby _ "lobbyRoom ''1v1''" "player 1 None" "[]" fallback] w h
    by blast
  have b2: "map (\<lambda>q. pid q = pid (player 1 None)) (participants twoLobby) = [True, False]"
    by code_simp
  have c: "map isDrawer (participants (step RevealTimer (run firstRound twoLobby))) =
     map isDrawer (participants (run firstRound twoLobby))"
    using drawer_flag_invariant[where a = RevealTimer and s = "run firstRound twoLobby"] by blast
  have e0: "activeSorted emptyStore = []" by code_simp
  have e: "selectDrawerAndStartWordChoice [] fallback emptyStore = emptyStore"
    using drawer_flag_invariant[where s = emptyStore and themed = "[]" and fb = fallback] e0 by blast
  have f0: "countWhere isActive aloneStore < 2 \<and> room aloneStore \<noteq> None \<and>
            map isDrawer (participants aloneStore) = [True, False]"
    by code_simp
  have f: "map isDrawer (participants (startNewRound [] fallback aloneStore))
            = map isDrawer (participants aloneStore)"
    using drawer_flag_invariant[where s = aloneStore and themed = "[]" and fb = fallback] f0 by blast
  have g: "drawerCount (skip_turn [] fallback aloneStore) = 0"
    using drawer_flag_invariant[where s = aloneStore and themed = "[]" and fb = fallback] f0 by blast
  show ?thesis using w a b b2 c e0 e f0 f g by simp
qed

text \<open>
  The claim wants no flagged participant outside \<^verbatim>\<open>choosing_word\<close> and \<^verbatim>\<open>drawing\<close>. In
  the first round of a game of two the drawer is flagged from the selection on, through
  the preview, and still in the reveal and in the interval after it; and in a game of
  three, when the drawer leaves while drawing, the room goes to the interval with the
  flag still on the row of the drawer who left.
\<close>

theorem drawer_flag_outside_drawing_counterexample:
  "map_option roundPhase (room (run [StartGame (Some 1) [] fallback] twoLobby)) = Some (Some selecting_drawer) \<and>
   drawerCount (run [StartGame (Some 1) [] fallback] twoLobby) = 1 \<and>
   map_option roundPhase (room (run firstRound twoLobby)) = Some (Some reveal) \<and>
   drawerCount (run firstRound twoLobby) = 1 \<and>
   map_option roundPhase (room (run (firstRound @ [RevealTimer]) twoLobby)) = Some (Some interval) \<and>
   drawerCount (run (firstRound @ [RevealTimer]) twoLobby) = 1 \<and>
   map_option roundPhase (room (run drawerLeaves threeLobby)) = Some (Some interval) \<and>
   map (\<lambda>p. (userId p, isActive p, isDrawer p)) (participants (run drawerLeaves threeLobby)) =
     [(1, True, False), (2, False, True), (3, True, False)]"
  by code_simp

section \<open>Timer callbacks\<close>

text \<open>
  The tickers check the phase they were started for: in another phase, or without the
  room, they leave the store as it is.
\<close>

lemma phaseTick_stale:
  "room s = None \<or> (\<exists>r. room s = Some r \<and> roundPhase r \<noteq> Some ph) \<Longrightarrow>
   phaseTick ph cb themed fb s = s"
  by (auto simp: phaseTick_def)

lemma drawingTick_stale:
  "room s = None \<or> (\<exists>r. room s = Some r \<and> roundPhase r \<noteq> Some drawing) \<Longrightarrow> drawingTick s = s"
  by (auto simp: drawingTick_def)

text \<open>
  C1 on the code. The timer that \<^verbatim>\<open>endDrawingPhase\<close> sets for the end of the reveal calls
  \<^verbatim>\<open>startIntervalPhase\<close>, which reloads the room and starts the interval phase without
  looking at the phase. In a room that has gone on to the next round and is choosing a
  word, the callback writes the phase \<^verbatim>\<open>interval\<close> and four seconds of remaining time and
  broadcasts the phase change; the ticker of the interval, fired in the same store,
  changes nothing.
\<close>

theorem reveal_timer_not_guarded:
  "map_option roundPhase (room choosingStore) = Some (Some choosing_word) \<and>
   map_option roundRemainingTime (room choosingStore) = Some 10 \<and>
   map_option roundPhase (room (step RevealTimer choosingStore)) = Some (Some interval) \<and>
   map_option roundRemainingTime (room (step RevealTimer choosingStore)) = Some 4 \<and>
   emitted (step RevealTimer choosingStore) = [PhaseChange interval 4, PhaseChange interval 4] \<and>
   map_option roundPhase (room (step (PhaseTick interval (NextRound True) [] fallback) choosingStore))
     = Some (Some choosing_word) \<and>
   emitted (step (PhaseTick interval (NextRound True) [] fallback) choosingStore) = []"
  by code_simp


end
